theory Spec2Isabelle
  imports Main "HOL-Library.Multiset" "HOL-Library.List_Lexorder"
begin

section \<open>Python values used by \<open>presenters.py\<close>\<close>

text \<open>
  A Python \<open>str\<close> is a sequence of Unicode code points, and \<open>len\<close>, slicing and the
  width of a format field count code points. A string is therefore a list of code points
  (natural numbers); \<open>ascii\<close> turns an ASCII literal into such a list. The three medal
  glyphs are one code point each (U+1F947, U+1F948, U+1F949).
\<close>

type_synonym pystr = "nat list"

definition ascii :: "string \<Rightarrow> pystr" where
  "ascii s = map of_char s"

definition GOLD :: nat where "GOLD = 129351"
definition SILVER :: nat where "SILVER = 129352"
definition BRONZE :: nat where "BRONZE = 129353"

text \<open>\<open>str(n)\<close> for an integer: decimal digits, most significant first, \<open>-\<close> in front of
  a negative number.\<close>

fun str_nat :: "nat \<Rightarrow> pystr" where
  "str_nat n = (if n < 10 then [48 + n] else str_nat (n div 10) @ [48 + n mod 10])"

declare str_nat.simps [simp del]

definition str_int :: "int \<Rightarrow> pystr" where
  "str_int i = (if i < 0 then 45 # str_nat (nat (- i)) else str_nat (nat i))"

text \<open>The format specification \<open><w\<close>: left-justify in a field of at least \<open>w\<close> code
  points, padding with spaces; a longer value is never cut.\<close>

definition ljust :: "nat \<Rightarrow> pystr \<Rightarrow> pystr" where
  "ljust w s = s @ replicate (w - length s) 32"

text \<open>\<open>sep.join(parts)\<close>.\<close>

fun str_join :: "pystr \<Rightarrow> pystr list \<Rightarrow> pystr" where
  "str_join sep [] = []"
| "str_join sep [p] = p"
| "str_join sep (p # q # ps) = p @ sep @ str_join sep (q # ps)"


text \<open>The truth value of an \<open>Optional[str]\<close>: \<open>None\<close> and the empty string are false.\<close>

fun truthy :: "pystr option \<Rightarrow> bool" where
  "truthy None = False"
| "truthy (Some m) = (m \<noteq> [])"

text \<open>
  The builtin \<open>sorted(xs, key=k, reverse=r)\<close>. It returns a new list and its sort is
  stable; with \<open>reverse=True\<close> CPython reverses the list, sorts it stably in ascending
  order of the key and reverses the result, so that elements with equal keys keep the
  order they had in the input. \<open>sort_key\<close> is the stable insertion sort of the library;
  a stable sort has one possible result for a list and a key, so it returns the list
  that the sort of CPython returns. The keys are integers in \<open>present_stats\<close>; any
  linear order will do, and strings are ordered as Python orders them, code point by
  code point.
\<close>

definition sorted_builtin :: "('a \<Rightarrow> 'k::linorder) \<Rightarrow> bool \<Rightarrow> 'a list \<Rightarrow> 'a list" where
  "sorted_builtin key reverse xs =
     (if reverse then rev (sort_key key (rev xs)) else sort_key key xs)"

section \<open>The entity \<open>UserStats\<close>\<close>

text \<open>
  Modelled from the spec: the class \<open>UserStats\<close> of \<open>entities.py\<close>, which is not part of
  the sources at hand. Section 3 of the specification gives its five fields; Python
  integers are unbounded.
\<close>

record UserStats =
  username :: pystr
  total_questions :: int
  easy_count :: int
  medium_count :: int
  hard_count :: int

section \<open>\<open>TextPresenter\<close>\<close>

definition RULE :: pystr where
  "RULE = replicate 80 45"

definition text_title :: "int \<Rightarrow> pystr" where
  "text_title days = 10 # ascii ''LeetCode Statistics (Last '' @ str_int days @ ascii '' Days)''"

definition text_column_header :: pystr where
  "text_column_header =
     ljust 25 (ascii ''Username'') @ ascii '' '' @ ljust 15 (ascii ''Total Questions'')
     @ ascii '' '' @ ljust 10 (ascii ''Easy'') @ ascii '' '' @ ljust 10 (ascii ''Medium'')
     @ ascii '' '' @ ljust 10 (ascii ''Hard'')"

text \<open>Lines 78 to 84: the displayed user name of the row at index \<open>i\<close>.\<close>

definition text_username_display :: "nat \<Rightarrow> UserStats \<Rightarrow> pystr" where
  "text_username_display i stats =
     (if i = 0 then username stats @ ascii '' '' @ [GOLD]
      else if i = 1 then username stats @ ascii '' '' @ [SILVER]
      else if i = 2 then username stats @ ascii '' '' @ [BRONZE]
      else username stats)"

text \<open>Lines 86 to 88: the formatted row.\<close>

definition text_row :: "nat \<Rightarrow> UserStats \<Rightarrow> pystr" where
  "text_row i stats =
     ljust 25 (text_username_display i stats) @ ascii '' ''
     @ ljust 15 (str_int (total_questions stats)) @ ascii '' ''
     @ ljust 10 (str_int (easy_count stats)) @ ascii '' ''
     @ ljust 10 (str_int (medium_count stats)) @ ascii '' ''
     @ ljust 10 (str_int (hard_count stats))"

text \<open>The loop \<open>for i, stats in enumerate(sorted_stats)\<close>, appending one row to
  \<open>output\<close> in each round.\<close>

fun text_loop :: "nat \<Rightarrow> UserStats list \<Rightarrow> pystr list \<Rightarrow> pystr list" where
  "text_loop i [] output = output"
| "text_loop i (stats # rest) output = text_loop (Suc i) rest (output @ [text_row i stats])"

text \<open>The list \<open>output\<close> as it stands at the \<open>return\<close> of \<open>present_stats\<close>.\<close>

definition text_output :: "UserStats list \<Rightarrow> int \<Rightarrow> pystr option \<Rightarrow> pystr list" where
  "text_output user_stats_list days completion_message =
     (let output0 = [];
          sorted_stats = sorted_builtin total_questions True user_stats_list;
          output1 = output0 @ [text_title days];
          output2 = output1 @ [RULE];
          output3 = output2 @ [text_column_header];
          output4 = output3 @ [RULE];
          output5 = text_loop 0 sorted_stats output4;
          output6 = output5 @ [RULE]
      in (case completion_message of
            None \<Rightarrow> output6
          | Some m \<Rightarrow> if truthy completion_message then output6 @ [m] else output6))"

definition TextPresenter_present_stats :: "UserStats list \<Rightarrow> int \<Rightarrow> pystr option \<Rightarrow> pystr" where
  "TextPresenter_present_stats user_stats_list days completion_message =
     str_join [10] (text_output user_stats_list days completion_message)"

section \<open>\<open>HtmlPresenter\<close>\<close>

text \<open>The nineteen fixed lines of the first \<open>html_parts.extend\<close>.\<close>

definition html_head :: "pystr list" where
  \<open>html_head =
     [ascii ''<!DOCTYPE html>'',
      ascii ''<html>'',
      ascii ''<head>'',
      ascii ''    <meta charset='UTF-8'>'',
      ascii ''    <meta name='viewport' content='width=device-width, initial-scale=1.0'>'',
      ascii ''    <title>LeetCode Accountability Report</title>'',
      ascii ''    <style>'',
      ascii ''        body { font-family: Arial, sans-serif; margin: 20px; }'',
      ascii ''        h1 { color: #333; }'',
      ascii ''        table { border-collapse: collapse; width: 100%; margin-top: 20px; }'',
      ascii ''        th, td { padding: 12px; text-align: left; border-bottom: 1px solid #ddd; }'',
      ascii ''        th { background-color: #f2f2f2; }'',
      ascii ''        tr:hover { background-color: #f5f5f5; }'',
      ascii ''        .message { margin: 20px 0; padding: 15px; background-color: #f8f9fa; border-left: 5px solid #4285f4; }'',
      ascii ''        .first-place { font-weight: bold; }'',
      ascii ''        .medal { font-size: 1.2em; }'',
      ascii ''    </style>'',
      ascii ''</head>'',
      ascii ''<body>'']\<close>

text \<open>The second \<open>extend\<close>: the heading and the header row of the table.\<close>

definition html_stats_header :: "int \<Rightarrow> pystr list" where
  \<open>html_stats_header days =
     [ascii ''<h1>LeetCode Statistics (Last '' @ str_int days @ ascii '' Days)</h1>'',
      ascii ''<table>'',
      ascii ''    <tr>'',
      ascii ''        <th>Username</th>'',
      ascii ''        <th>Total Questions</th>'',
      ascii ''        <th>Easy</th>'',
      ascii ''        <th>Medium</th>'',
      ascii ''        <th>Hard</th>'',
      ascii ''    </tr>'']\<close>

text \<open>Lines 167 to 176: the class of the row and the medal markup at index \<open>i\<close>.\<close>

definition html_row_class :: "nat \<Rightarrow> pystr" where
  \<open>html_row_class i = (if i = 0 then ascii '' class="first-place"'' else [])\<close>

definition html_medal :: "nat \<Rightarrow> pystr" where
  \<open>html_medal i =
     (if i = 0 then ascii '' <span class="medal">'' @ [GOLD] @ ascii ''</span>''
      else if i = 1 then ascii '' <span class="medal">'' @ [SILVER] @ ascii ''</span>''
      else if i = 2 then ascii '' <span class="medal">'' @ [BRONZE] @ ascii ''</span>''
      else [])\<close>

text \<open>Lines 178 to 188: the seven lines of one table row.\<close>

definition html_row :: "nat \<Rightarrow> UserStats \<Rightarrow> pystr list" where
  \<open>html_row i stats =
     [ascii ''    <tr'' @ html_row_class i @ ascii ''>'',
      ascii ''        <td><a href="https://leetcode.com/u/'' @ username stats
        @ ascii ''/" target="_blank">'' @ username stats @ ascii ''</a>'' @ html_medal i
        @ ascii ''</td>'',
      ascii ''        <td>'' @ str_int (total_questions stats) @ ascii ''</td>'',
      ascii ''        <td>'' @ str_int (easy_count stats) @ ascii ''</td>'',
      ascii ''        <td>'' @ str_int (medium_count stats) @ ascii ''</td>'',
      ascii ''        <td>'' @ str_int (hard_count stats) @ ascii ''</td>'',
      ascii ''    </tr>'']\<close>

fun html_loop :: "nat \<Rightarrow> UserStats list \<Rightarrow> pystr list \<Rightarrow> pystr list" where
  "html_loop i [] html_parts = html_parts"
| "html_loop i (stats # rest) html_parts =
     html_loop (Suc i) rest (html_parts @ html_row i stats)"

definition html_message :: "pystr \<Rightarrow> pystr" where
  \<open>html_message m = ascii ''<div class='message'>'' @ m @ ascii ''</div>''\<close>

text \<open>The list \<open>html_parts\<close> as it stands at the \<open>return\<close> of \<open>present_stats\<close>.\<close>

definition html_output :: "UserStats list \<Rightarrow> int \<Rightarrow> pystr option \<Rightarrow> pystr list" where
  "html_output user_stats_list days completion_message =
     (let html_parts0 = [];
          sorted_stats = sorted_builtin total_questions True user_stats_list;
          html_parts1 = html_parts0 @ html_head;
          html_parts2 = html_parts1 @ html_stats_header days;
          html_parts3 = html_loop 0 sorted_stats html_parts2;
          html_parts4 = html_parts3 @ [ascii ''</table>''];
          html_parts5 =
            (case completion_message of
               None \<Rightarrow> html_parts4
             | Some m \<Rightarrow>
                 if truthy completion_message then html_parts4 @ [html_message m]
                 else html_parts4)
      in html_parts5 @ [ascii ''</body>'', ascii ''</html>''])"

definition HtmlPresenter_present_stats :: "UserStats list \<Rightarrow> int \<Rightarrow> pystr option \<Rightarrow> pystr" where
  "HtmlPresenter_present_stats user_stats_list days completion_message =
     str_join [10] (html_output user_stats_list days completion_message)"

section \<open>Reading a rendered report\<close>

text \<open>
  How a reader of a report recognises a medal. In the text form the row of the user named
  \<open>u\<close> carries the medal \<open>g\<close> when the name at the start of the row is followed by a
  space and the glyph. In the HTML form the user-name cell carries it when the link is
  followed by the span holding the glyph.
\<close>

definition text_row_has_medal :: "pystr \<Rightarrow> pystr \<Rightarrow> nat \<Rightarrow> bool" where
  "text_row_has_medal row u g = (take (length u + 2) row = u @ [32, g])"

definition html_cell_has_medal :: "pystr \<Rightarrow> pystr \<Rightarrow> nat \<Rightarrow> bool" where
  \<open>html_cell_has_medal cell u g =
     (cell = ascii ''        <td><a href="https://leetcode.com/u/'' @ u
        @ ascii ''/" target="_blank">'' @ u @ ascii ''</a> <span class="medal">'' @ [g]
        @ ascii ''</span></td>'')\<close>

text \<open>The three medals by rank, as the specification lists them.\<close>

definition medal_of_rank :: "nat \<Rightarrow> nat option" where
  "medal_of_rank i =
     (if i = 0 then Some GOLD else if i = 1 then Some SILVER
      else if i = 2 then Some BRONZE else None)"

section \<open>Errors\<close>

text \<open>
  The exceptions of Python that the statements of \<open>presenters.py\<close> can raise:
  \<open>AttributeError\<close> with the name of the missing attribute, \<open>TypeError\<close>,
  \<open>ValueError\<close>, \<open>UnicodeEncodeError\<close> and \<open>OSError\<close>. \<open>InvalidInputError\<close> is the
  error kind the specification names; no statement of \<open>presenters.py\<close> raises it.
\<close>

datatype py_error =
  AttributeError string | TypeError | ValueError | UnicodeEncodeError | OSError
  | InvalidInputError

section \<open>The factory \<open>get_presenter\<close>\<close>

datatype presenter = TextPresenter | HtmlPresenter

text \<open>
  \<open>str.lower()\<close>. On ASCII it maps \<open>A\<close> to \<open>Z\<close> to \<open>a\<close> to \<open>z\<close> and leaves every other
  code point as it is. The lower-case mapping of the code points beyond ASCII comes from
  the Unicode tables of the interpreter and is the parameter \<open>u\<close>; it may give several
  code points for one.
\<close>

definition lower_cp :: "(nat \<Rightarrow> pystr) \<Rightarrow> nat \<Rightarrow> pystr" where
  "lower_cp u c = (if 65 \<le> c \<and> c \<le> 90 then [c + 32] else if c < 128 then [c] else u c)"

definition str_lower :: "(nat \<Rightarrow> pystr) \<Rightarrow> pystr \<Rightarrow> pystr" where
  "str_lower u s = concat (map (lower_cp u) s)"

definition get_presenter :: "(nat \<Rightarrow> pystr) \<Rightarrow> pystr \<Rightarrow> presenter" where
  "get_presenter u output_type =
     (if str_lower u output_type = ascii ''html'' then HtmlPresenter else TextPresenter)"

text \<open>The call without an argument takes the default \<open>output_type = "text"\<close>.\<close>

definition get_presenter_default :: "(nat \<Rightarrow> pystr) \<Rightarrow> presenter" where
  "get_presenter_default u = get_presenter u (ascii ''text'')"

text \<open>
  What is known of the Unicode table: no code point beyond ASCII has an empty lower-case
  form, and none has a lower-case form made of the letters \<open>h\<close>, \<open>t\<close>, \<open>m\<close>, \<open>l\<close> only.
\<close>

definition unicode_lower :: "(nat \<Rightarrow> pystr) \<Rightarrow> bool" where
  "unicode_lower u = (\<forall>c. 128 \<le> c \<longrightarrow> u c \<noteq> [] \<and> \<not> set (u c) \<subseteq> {104, 116, 109, 108})"

text \<open>The keys equal to \<open>html\<close> up to the case of each letter.\<close>

definition is_html_key :: "pystr \<Rightarrow> bool" where
  "is_html_key s =
     (length s = 4 \<and> s ! 0 \<in> {104, 72} \<and> s ! 1 \<in> {116, 84} \<and> s ! 2 \<in> {109, 77}
      \<and> s ! 3 \<in> {108, 76})"

section \<open>\<open>write_to_file\<close>\<close>










section \<open>The example of the specification\<close>

definition example_stats :: "UserStats list" where
  "example_stats =
     [\<lparr>username = ascii ''alice'', total_questions = 10, easy_count = 5, medium_count = 3,
        hard_count = 2\<rparr>,
      \<lparr>username = ascii ''bob'', total_questions = 10, easy_count = 2, medium_count = 2,
        hard_count = 6\<rparr>,
      \<lparr>username = ascii ''carol'', total_questions = 5, easy_count = 5, medium_count = 0,
        hard_count = 0\<rparr>]"

section \<open>The renderers on objects as Python has them\<close>

text \<open>
  \<open>present_stats\<close> checks nothing about its arguments. To follow what it does with a
  list that is not a list of well-formed records, an object is modelled with each of
  the five attributes present or not, and a present attribute holds an integer, a string
  or \<open>None\<close>. The functions of this section are the two \<open>present_stats\<close> again, with
  every statement that can raise written out, in the order of the source.
\<close>

datatype pyval = PyInt int | PyStr pystr | PyNone

record UserStats_obj =
  obj_username :: "pyval option"
  obj_total_questions :: "pyval option"
  obj_easy_count :: "pyval option"
  obj_medium_count :: "pyval option"
  obj_hard_count :: "pyval option"

definition getattr :: "string \<Rightarrow> 'a option \<Rightarrow> py_error + 'a" where
  "getattr name v = (case v of None \<Rightarrow> Inl (AttributeError name) | Some x \<Rightarrow> Inr x)"

text \<open>Sequencing: an error ends the call.\<close>

definition bind_err :: "py_error + 'a \<Rightarrow> ('a \<Rightarrow> py_error + 'b) \<Rightarrow> py_error + 'b" where
  "bind_err r f = (case r of Inl e \<Rightarrow> Inl e | Inr v \<Rightarrow> f v)"

text \<open>
  Converting an integer to a string. The interpreter has a limit on the number of digits
  (\<open>sys.get_int_max_str_digits()\<close>: 4300 by default since CPython 3.11, at least 640 when
  it is set, and 0 when there is no limit, as in earlier versions); beyond it the
  conversion raises \<open>ValueError\<close>. The limit is the parameter \<open>max_str_digits\<close>.
\<close>

definition digits :: "int \<Rightarrow> nat" where
  "digits i = length (str_nat (nat \<bar>i\<bar>))"

definition int_to_str :: "nat \<Rightarrow> int \<Rightarrow> py_error + pystr" where
  "int_to_str max_str_digits i =
     (if 0 < max_str_digits \<and> max_str_digits < digits i then Inl ValueError
      else Inr (str_int i))"

text \<open>A replacement field \<open>{v}\<close> of an f-string without a format specification: \<open>str(v)\<close>.\<close>

definition py_str :: "nat \<Rightarrow> pyval \<Rightarrow> py_error + pystr" where
  "py_str max_str_digits v =
     (case v of
        PyInt i \<Rightarrow> int_to_str max_str_digits i
      | PyStr s \<Rightarrow> Inr s
      | PyNone \<Rightarrow> Inr (ascii ''None''))"

text \<open>A replacement field \<open>{v:<w}\<close>: integers and strings are left-justified, and
  \<open>None\<close> does not take a format specification.\<close>

definition py_format :: "nat \<Rightarrow> nat \<Rightarrow> pyval \<Rightarrow> py_error + pystr" where
  "py_format max_str_digits w v =
     (case v of
        PyInt i \<Rightarrow> bind_err (int_to_str max_str_digits i) (\<lambda>s. Inr (ljust w s))
      | PyStr s \<Rightarrow> Inr (ljust w s)
      | PyNone \<Rightarrow> Inl TypeError)"

fun is_int :: "pyval \<Rightarrow> bool" where
  "is_int (PyInt i) = True"
| "is_int v = False"

fun is_str :: "pyval \<Rightarrow> bool" where
  "is_str (PyStr s) = True"
| "is_str v = False"

fun int_of :: "pyval \<Rightarrow> int" where
  "int_of (PyInt i) = i"
| "int_of v = 0"

fun str_of :: "pyval \<Rightarrow> pystr" where
  "str_of (PyStr s) = s"
| "str_of v = []"

text \<open>
  \<open>sorted\<close> first calls the key function \<open>lambda x: x.total_questions\<close> on every element,
  in the order of the list, and then sorts by the keys. Sorting a list of two or more
  compares every key with another one; integers compare with integers and strings with
  strings, and every other comparison raises \<open>TypeError\<close>.
\<close>

fun key_list :: "UserStats_obj list \<Rightarrow> py_error + pyval list" where
  "key_list [] = Inr []"
| "key_list (p # ps) =
     bind_err (getattr ''total_questions'' (obj_total_questions p))
       (\<lambda>k. bind_err (key_list ps) (\<lambda>ks. Inr (k # ks)))"

definition sorted_obj :: "UserStats_obj list \<Rightarrow> py_error + UserStats_obj list" where
  "sorted_obj user_stats_list =
     bind_err (key_list user_stats_list) (\<lambda>ks.
       if length ks < 2 then Inr user_stats_list
       else if list_all is_int ks
         then Inr (map snd (sorted_builtin (\<lambda>p. int_of (fst p)) True (zip ks user_stats_list)))
       else if list_all is_str ks
         then Inr (map snd (sorted_builtin (\<lambda>p. str_of (fst p)) True (zip ks user_stats_list)))
       else Inl TypeError)"

text \<open>Lines 78 to 84: \<open>username_display\<close> is the attribute itself, or a string made with
  \<open>str\<close> of it for the first three rows.\<close>

definition text_username_display_obj :: "nat \<Rightarrow> nat \<Rightarrow> pyval \<Rightarrow> py_error + pyval" where
  "text_username_display_obj max_str_digits i u =
     (if i = 0 then bind_err (py_str max_str_digits u) (\<lambda>s. Inr (PyStr (s @ ascii '' '' @ [GOLD])))
      else if i = 1
        then bind_err (py_str max_str_digits u) (\<lambda>s. Inr (PyStr (s @ ascii '' '' @ [SILVER])))
      else if i = 2
        then bind_err (py_str max_str_digits u) (\<lambda>s. Inr (PyStr (s @ ascii '' '' @ [BRONZE])))
      else Inr u)"

text \<open>Lines 86 to 88: each attribute is read and formatted before the next one is read.\<close>

definition text_row_obj :: "nat \<Rightarrow> nat \<Rightarrow> UserStats_obj \<Rightarrow> py_error + pystr" where
  "text_row_obj max_str_digits i stats =
     bind_err (getattr ''username'' (obj_username stats)) (\<lambda>u.
     bind_err (text_username_display_obj max_str_digits i u) (\<lambda>username_display.
     bind_err (py_format max_str_digits 25 username_display) (\<lambda>c1.
     bind_err (getattr ''total_questions'' (obj_total_questions stats)) (\<lambda>t.
     bind_err (py_format max_str_digits 15 t) (\<lambda>c2.
     bind_err (getattr ''easy_count'' (obj_easy_count stats)) (\<lambda>e.
     bind_err (py_format max_str_digits 10 e) (\<lambda>c3.
     bind_err (getattr ''medium_count'' (obj_medium_count stats)) (\<lambda>m.
     bind_err (py_format max_str_digits 10 m) (\<lambda>c4.
     bind_err (getattr ''hard_count'' (obj_hard_count stats)) (\<lambda>h.
     bind_err (py_format max_str_digits 10 h) (\<lambda>c5.
       Inr (c1 @ ascii '' '' @ c2 @ ascii '' '' @ c3 @ ascii '' '' @ c4 @ ascii '' '' @ c5))))))))))))"

fun text_loop_obj ::
  "nat \<Rightarrow> nat \<Rightarrow> UserStats_obj list \<Rightarrow> pystr list \<Rightarrow> py_error + pystr list" where
  "text_loop_obj max_str_digits i [] output = Inr output"
| "text_loop_obj max_str_digits i (stats # rest) output =
     bind_err (text_row_obj max_str_digits i stats)
       (\<lambda>row. text_loop_obj max_str_digits (Suc i) rest (output @ [row]))"

definition TextPresenter_present_stats_obj ::
  "nat \<Rightarrow> UserStats_obj list \<Rightarrow> int \<Rightarrow> pystr option \<Rightarrow> py_error + pystr" where
  "TextPresenter_present_stats_obj max_str_digits user_stats_list days completion_message =
     bind_err (sorted_obj user_stats_list) (\<lambda>sorted_stats.
     bind_err (int_to_str max_str_digits days) (\<lambda>d.
     bind_err (text_loop_obj max_str_digits 0 sorted_stats
         [10 # ascii ''LeetCode Statistics (Last '' @ d @ ascii '' Days)'', RULE,
          text_column_header, RULE])
       (\<lambda>output5.
          let output6 = output5 @ [RULE];
              output7 = (case completion_message of
                           None \<Rightarrow> output6
                         | Some m \<Rightarrow> if truthy completion_message then output6 @ [m]
                                     else output6)
          in Inr (str_join [10] output7))))"

text \<open>The seven lines of a table row, from the strings of the five attributes.\<close>

definition html_row_of ::
  "nat \<Rightarrow> pystr \<Rightarrow> pystr \<Rightarrow> pystr \<Rightarrow> pystr \<Rightarrow> pystr \<Rightarrow> pystr list" where
  \<open>html_row_of i name t e m h =
     [ascii ''    <tr'' @ html_row_class i @ ascii ''>'',
      ascii ''        <td><a href="https://leetcode.com/u/'' @ name
        @ ascii ''/" target="_blank">'' @ name @ ascii ''</a>'' @ html_medal i
        @ ascii ''</td>'',
      ascii ''        <td>'' @ t @ ascii ''</td>'',
      ascii ''        <td>'' @ e @ ascii ''</td>'',
      ascii ''        <td>'' @ m @ ascii ''</td>'',
      ascii ''        <td>'' @ h @ ascii ''</td>'',
      ascii ''    </tr>'']\<close>

text \<open>Lines 166 to 188: the f-strings of the list are evaluated one after the other.\<close>

definition html_row_obj :: "nat \<Rightarrow> nat \<Rightarrow> UserStats_obj \<Rightarrow> py_error + pystr list" where
  "html_row_obj max_str_digits i stats =
     bind_err (getattr ''username'' (obj_username stats)) (\<lambda>u.
     bind_err (py_str max_str_digits u) (\<lambda>name.
     bind_err (getattr ''total_questions'' (obj_total_questions stats)) (\<lambda>t.
     bind_err (py_str max_str_digits t) (\<lambda>c2.
     bind_err (getattr ''easy_count'' (obj_easy_count stats)) (\<lambda>e.
     bind_err (py_str max_str_digits e) (\<lambda>c3.
     bind_err (getattr ''medium_count'' (obj_medium_count stats)) (\<lambda>m.
     bind_err (py_str max_str_digits m) (\<lambda>c4.
     bind_err (getattr ''hard_count'' (obj_hard_count stats)) (\<lambda>h.
     bind_err (py_str max_str_digits h) (\<lambda>c5.
       Inr (html_row_of i name c2 c3 c4 c5)))))))))))"

fun html_loop_obj ::
  "nat \<Rightarrow> nat \<Rightarrow> UserStats_obj list \<Rightarrow> pystr list \<Rightarrow> py_error + pystr list" where
  "html_loop_obj max_str_digits i [] html_parts = Inr html_parts"
| "html_loop_obj max_str_digits i (stats # rest) html_parts =
     bind_err (html_row_obj max_str_digits i stats)
       (\<lambda>lines. html_loop_obj max_str_digits (Suc i) rest (html_parts @ lines))"

definition HtmlPresenter_present_stats_obj ::
  "nat \<Rightarrow> UserStats_obj list \<Rightarrow> int \<Rightarrow> pystr option \<Rightarrow> py_error + pystr" where
  "HtmlPresenter_present_stats_obj max_str_digits user_stats_list days completion_message =
     bind_err (sorted_obj user_stats_list) (\<lambda>sorted_stats.
     bind_err (int_to_str max_str_digits days) (\<lambda>d.
     bind_err (html_loop_obj max_str_digits 0 sorted_stats
         (html_head
          @ [ascii ''<h1>LeetCode Statistics (Last '' @ d @ ascii '' Days)</h1>'',
             ascii ''<table>'',
             ascii ''    <tr>'',
             ascii ''        <th>Username</th>'',
             ascii ''        <th>Total Questions</th>'',
             ascii ''        <th>Easy</th>'',
             ascii ''        <th>Medium</th>'',
             ascii ''        <th>Hard</th>'',
             ascii ''    </tr>'']))
       (\<lambda>html_parts3.
          let html_parts4 = html_parts3 @ [ascii ''</table>''];
              html_parts5 = (case completion_message of
                               None \<Rightarrow> html_parts4
                             | Some m \<Rightarrow>
                                 if truthy completion_message
                                 then html_parts4 @ [html_message m] else html_parts4)
          in Inr (str_join [10] (html_parts5 @ [ascii ''</body>'', ascii ''</html>''])))))"



definition within :: "nat \<Rightarrow> int \<Rightarrow> bool" where
  "within max_str_digits i = (max_str_digits = 0 \<or> digits i \<le> max_str_digits)"












section \<open>The arguments as objects on the heap\<close>

text \<open>
  The argument \<open>user_stats_list\<close> is a reference to a list object of the caller, and that
  list holds references to the \<open>UserStats\<close> objects. The heap has the two kinds of
  objects by address, and the next address to be allocated. The functions below are the
  two \<open>present_stats\<close> again, with every access to the heap written out; the result
  \<open>None\<close> stands for a reference to nothing, which Python does not have.
\<close>

record heap =
  objects :: "nat \<rightharpoonup> UserStats"
  lists :: "nat \<rightharpoonup> nat list"
  next_addr :: nat

definition new_list :: "heap \<Rightarrow> nat list \<Rightarrow> heap \<times> nat" where
  "new_list h refs =
     (h\<lparr>lists := (lists h)(next_addr h \<mapsto> refs), next_addr := Suc (next_addr h)\<rparr>,
      next_addr h)"

definition key_heap :: "heap \<Rightarrow> nat \<Rightarrow> int" where
  "key_heap h r = (case objects h r of None \<Rightarrow> 0 | Some stats \<Rightarrow> total_questions stats)"

text \<open>\<open>sorted\<close> reads the list and the keys and allocates the list it returns.\<close>

definition sorted_heap :: "heap \<Rightarrow> nat \<Rightarrow> (heap \<times> nat) option" where
  "sorted_heap h l =
     (case lists h l of
        None \<Rightarrow> None
      | Some refs \<Rightarrow>
          if list_all (\<lambda>r. objects h r \<noteq> None) refs
          then Some (new_list h (sorted_builtin (key_heap h) True refs)) else None)"

fun text_loop_heap :: "heap \<Rightarrow> nat \<Rightarrow> nat list \<Rightarrow> pystr list \<Rightarrow> pystr list option" where
  "text_loop_heap h i [] output = Some output"
| "text_loop_heap h i (r # rest) output =
     (case objects h r of
        None \<Rightarrow> None
      | Some stats \<Rightarrow> text_loop_heap h (Suc i) rest (output @ [text_row i stats]))"

definition TextPresenter_present_stats_heap ::
  "heap \<Rightarrow> nat \<Rightarrow> int \<Rightarrow> pystr option \<Rightarrow> (heap \<times> pystr) option" where
  "TextPresenter_present_stats_heap h user_stats_list days completion_message =
     (case sorted_heap h user_stats_list of
        None \<Rightarrow> None
      | Some (h1, sorted_stats) \<Rightarrow>
          (case lists h1 sorted_stats of
             None \<Rightarrow> None
           | Some refs \<Rightarrow>
               (case text_loop_heap h1 0 refs [text_title days, RULE, text_column_header, RULE] of
                  None \<Rightarrow> None
                | Some output5 \<Rightarrow>
                    let output6 = output5 @ [RULE];
                        output7 = (case completion_message of
                                     None \<Rightarrow> output6
                                   | Some m \<Rightarrow> if truthy completion_message then output6 @ [m]
                                               else output6)
                    in Some (h1, str_join [10] output7))))"

fun html_loop_heap :: "heap \<Rightarrow> nat \<Rightarrow> nat list \<Rightarrow> pystr list \<Rightarrow> pystr list option" where
  "html_loop_heap h i [] html_parts = Some html_parts"
| "html_loop_heap h i (r # rest) html_parts =
     (case objects h r of
        None \<Rightarrow> None
      | Some stats \<Rightarrow> html_loop_heap h (Suc i) rest (html_parts @ html_row i stats))"

definition HtmlPresenter_present_stats_heap ::
  "heap \<Rightarrow> nat \<Rightarrow> int \<Rightarrow> pystr option \<Rightarrow> (heap \<times> pystr) option" where
  "HtmlPresenter_present_stats_heap h user_stats_list days completion_message =
     (case sorted_heap h user_stats_list of
        None \<Rightarrow> None
      | Some (h1, sorted_stats) \<Rightarrow>
          (case lists h1 sorted_stats of
             None \<Rightarrow> None
           | Some refs \<Rightarrow>
               (case html_loop_heap h1 0 refs (html_head @ html_stats_header days) of
                  None \<Rightarrow> None
                | Some html_parts3 \<Rightarrow>
                    let html_parts4 = html_parts3 @ [ascii ''</table>''];
                        html_parts5 = (case completion_message of
                                         None \<Rightarrow> html_parts4
                                       | Some m \<Rightarrow>
                                           if truthy completion_message
                                           then html_parts4 @ [html_message m]
                                           else html_parts4)
                    in Some (h1, str_join [10] (html_parts5
                                                 @ [ascii ''</body>'', ascii ''</html>''])))))"

text \<open>
  A heap as Python keeps it: the list exists, every element of it is an object, and the
  allocator has not handed out the next address yet.
\<close>

definition heap_ok :: "heap \<Rightarrow> nat \<Rightarrow> bool" where
  "heap_ok h l =
     (case lists h l of
        None \<Rightarrow> False
      | Some refs \<Rightarrow> list_all (\<lambda>r. objects h r \<noteq> None) refs \<and> lists h (next_addr h) = None)"

text \<open>The records a list of the heap refers to.\<close>

definition list_value :: "heap \<Rightarrow> nat \<Rightarrow> UserStats list" where
  "list_value h l =
     (case lists h l of
        None \<Rightarrow> []
      | Some refs \<Rightarrow> concat (map (\<lambda>r. case objects h r of None \<Rightarrow> [] | Some s \<Rightarrow> [s]) refs))"

text \<open>The record at an address; the record of zeros stands where the address holds nothing.\<close>

definition deref :: "heap \<Rightarrow> nat \<Rightarrow> UserStats" where
  "deref h r =
     (case objects h r of
        None \<Rightarrow> \<lparr>username = [], total_questions = 0, easy_count = 0, medium_count = 0,
                  hard_count = 0\<rparr>
      | Some s \<Rightarrow> s)"

text \<open>A heap with the three records of the example, listed as carol, alice, bob.\<close>

definition example_heap :: heap where
  "example_heap =
     \<lparr>objects = [10 \<mapsto> example_stats ! 2, 11 \<mapsto> example_stats ! 0, 12 \<mapsto> example_stats ! 1],
      lists = [20 \<mapsto> [10, 11, 12]], next_addr = 21\<rparr>"

section \<open>Reading the numbers back\<close>

text \<open>
  \<open>parse_int\<close> reads a decimal numeral with an optional sign, as \<open>int\<close> does; \<open>strip\<close>
  removes the white space at both ends, which \<open>int\<close> ignores; \<open>field\<close> is the slice
  \<open>row[start : start + width]\<close> without the white space around it.
\<close>

fun digits_value :: "nat \<Rightarrow> pystr \<Rightarrow> nat option" where
  "digits_value acc [] = Some acc"
| "digits_value acc (c # cs) =
     (if 48 \<le> c \<and> c \<le> 57 then digits_value (10 * acc + (c - 48)) cs else None)"

definition parse_nat :: "pystr \<Rightarrow> nat option" where
  "parse_nat s = (if s = [] then None else digits_value 0 s)"

definition parse_int :: "pystr \<Rightarrow> int option" where
  "parse_int s =
     (if s \<noteq> [] \<and> hd s = 45 then map_option (\<lambda>n. - int n) (parse_nat (tl s))
      else if s \<noteq> [] \<and> hd s = 43 then map_option int (parse_nat (tl s))
      else map_option int (parse_nat s))"

definition is_space :: "nat \<Rightarrow> bool" where
  "is_space c = (c = 32 \<or> (9 \<le> c \<and> c \<le> 13))"

definition strip :: "pystr \<Rightarrow> pystr" where
  "strip s = rev (dropWhile is_space (rev (dropWhile is_space s)))"

definition field :: "nat \<Rightarrow> nat \<Rightarrow> pystr \<Rightarrow> pystr" where
  "field start width row = strip (take width (drop start row))"

text \<open>
  The fixed-width columns of a text row: the name in columns 0 to 24, the total in 26 to
  40, and the easy, medium and hard counts in 42 to 51, 53 to 62 and 64 to 73.
\<close>

definition parse_text_row :: "pystr \<Rightarrow> (int \<times> int \<times> int \<times> int) option" where
  "parse_text_row row =
     (case parse_int (field 26 15 row) of None \<Rightarrow> None | Some t \<Rightarrow>
      case parse_int (field 42 10 row) of None \<Rightarrow> None | Some e \<Rightarrow>
      case parse_int (field 53 10 row) of None \<Rightarrow> None | Some m \<Rightarrow>
      case parse_int (field 64 10 row) of None \<Rightarrow> None | Some h \<Rightarrow> Some (t, e, m, h))"

text \<open>\<open>s.split(sep)\<close> for a separator of one code point.\<close>

fun str_split :: "nat \<Rightarrow> pystr \<Rightarrow> pystr list" where
  "str_split sep [] = [[]]"
| "str_split sep (c # cs) =
     (if c = sep then [] # str_split sep cs
      else (case str_split sep cs of [] \<Rightarrow> [[c]] | l # ls \<Rightarrow> (c # l) # ls))"

text \<open>
  Reading a text report: split it into lines, pass over the blank line, the title, the
  rule, the column header and the second rule, and read rows up to the closing rule.
\<close>

definition parse_text_report :: "pystr \<Rightarrow> (int \<times> int \<times> int \<times> int) list option" where
  "parse_text_report report =
     those (map parse_text_row (takeWhile (\<lambda>l. l \<noteq> RULE) (drop 5 (str_split 10 report))))"

text \<open>
  Reading an HTML report: the document is cut at every \<open><\<close>, so that each piece begins
  with the name of a tag; the cells are the pieces that begin with \<open>td>\<close>, up to the
  piece that closes the table, and the text of a cell is what follows \<open>td>\<close> in its
  piece. The cells come five to a row: the cell of the name, which is passed over, and
  the four numbers.
\<close>

definition starts_with :: "pystr \<Rightarrow> pystr \<Rightarrow> bool" where
  "starts_with prefix s = (take (length prefix) s = prefix)"

definition td_cells :: "pystr list \<Rightarrow> pystr list" where
  "td_cells pieces = map (drop 3) (filter (starts_with (ascii ''td>'')) pieces)"

definition html_cells :: "pystr \<Rightarrow> pystr list" where
  "html_cells report =
     td_cells (takeWhile (\<lambda>p. \<not> starts_with (ascii ''/table>'') p) (str_split 60 report))"

fun parse_html_cells :: "pystr list \<Rightarrow> (int \<times> int \<times> int \<times> int) list option" where
  "parse_html_cells [] = Some []"
| "parse_html_cells (name # t # e # m # h # rest) =
     (case parse_int (strip t) of None \<Rightarrow> None | Some tv \<Rightarrow>
      case parse_int (strip e) of None \<Rightarrow> None | Some ev \<Rightarrow>
      case parse_int (strip m) of None \<Rightarrow> None | Some mv \<Rightarrow>
      case parse_int (strip h) of None \<Rightarrow> None | Some hv \<Rightarrow>
      map_option (\<lambda>vs. (tv, ev, mv, hv) # vs) (parse_html_cells rest))"
| "parse_html_cells cells = None"

definition parse_html_report :: "pystr \<Rightarrow> (int \<times> int \<times> int \<times> int) list option" where
  "parse_html_report report = parse_html_cells (html_cells report)"

text \<open>The four numbers of a record, in the order of the columns.\<close>

definition numbers :: "UserStats \<Rightarrow> int \<times> int \<times> int \<times> int" where
  "numbers stats = (total_questions stats, easy_count stats, medium_count stats, hard_count stats)"

text \<open>
  A row fits its columns when the displayed name, medal included, has at most 25 code
  points and the four numerals have at most 15, 10, 10 and 10.
\<close>

definition text_row_fits :: "nat \<Rightarrow> UserStats \<Rightarrow> bool" where
  "text_row_fits i stats =
     (length (text_username_display i stats) \<le> 25
      \<and> length (str_int (total_questions stats)) \<le> 15
      \<and> length (str_int (easy_count stats)) \<le> 10
      \<and> length (str_int (medium_count stats)) \<le> 10
      \<and> length (str_int (hard_count stats)) \<le> 10)"

text \<open>
  For the proofs: a part of a document is clean, with the cells \<open>cs\<close>, when whatever text
  without \<open><\<close> follows it, its pieces are these cells and tags other than the end of the
  table. The string of a table row is its seven lines, each after a newline; \<open>row_tail\<close> is
  that string after the \<open><\<close> of its first tag, and \<open>name_cell\<close> the line of the name in
  it, after its first \<open><\<close>.
\<close>

definition clean :: "pystr \<Rightarrow> pystr list \<Rightarrow> bool" where
  "clean part cs =
     (\<forall>x. 60 \<notin> set x \<longrightarrow>
        list_all (\<lambda>p. \<not> starts_with (ascii ''/table>'') p) (str_split 60 (part @ x))
        \<and> td_cells (str_split 60 (part @ x)) = cs)"

text \<open>
  Two strings clash when they differ at a place both have; a piece is plain when it
  clashes with the tag of a cell and with the tag that ends the table, so that it begins
  with neither, whatever is added at its end. \<open>after_lt\<close> is what follows the first
  \<open><\<close> of a line.
\<close>

definition clash :: "pystr \<Rightarrow> pystr \<Rightarrow> bool" where
  "clash r q =
     (take (min (length r) (length q)) r \<noteq> take (min (length r) (length q)) q)"

definition plain_piece :: "pystr \<Rightarrow> bool" where
  "plain_piece p = (clash (ascii ''td>'') p \<and> clash (ascii ''/table>'') p)"

definition after_lt :: "pystr \<Rightarrow> pystr" where
  "after_lt l = tl (dropWhile (\<lambda>c. c \<noteq> 60) l)"

definition row_string :: "nat \<Rightarrow> UserStats \<Rightarrow> pystr" where
  "row_string i stats = concat (map (\<lambda>l. 10 # l) (html_row i stats))"

definition row_tail :: "nat \<Rightarrow> UserStats \<Rightarrow> pystr" where
  "row_tail i stats = drop 6 (row_string i stats)"

definition name_cell :: "nat \<Rightarrow> pystr \<Rightarrow> pystr" where
  \<open>name_cell i u =
     ascii ''td><a href="https://leetcode.com/u/'' @ u @ ascii ''/" target="_blank">'' @ u
     @ ascii ''</a>'' @ html_medal i @ ascii ''</td>''\<close>

definition number_cells :: "UserStats \<Rightarrow> pystr list" where
  "number_cells stats =
     [str_int (total_questions stats), str_int (easy_count stats),
      str_int (medium_count stats), str_int (hard_count stats)]"

definition row_cells :: "UserStats \<Rightarrow> pystr list" where
  "row_cells stats =
     [[], str_int (total_questions stats), str_int (easy_count stats),
      str_int (medium_count stats), str_int (hard_count stats)]"

text \<open>
  Four records: one whose name has 30 letters, one whose total has 16 digits, one whose
  name has a newline in it, and one whose name has the markup of a cell in it.
\<close>

definition long_name_stats :: UserStats where
  "long_name_stats =
     \<lparr>username = ascii ''abcdefghijklmnopqrstuvwxyzabcd'', total_questions = 10,
      easy_count = 5, medium_count = 3, hard_count = 2\<rparr>"

definition wide_total_stats :: UserStats where
  "wide_total_stats =
     \<lparr>username = ascii ''zoe'', total_questions = 1234567890123456, easy_count = 5,
      medium_count = 3, hard_count = 2\<rparr>"

definition newline_name_stats :: UserStats where
  "newline_name_stats =
     \<lparr>username = ascii ''jo'' @ [10] @ ascii ''hn'', total_questions = 10, easy_count = 5,
      medium_count = 3, hard_count = 2\<rparr>"

definition markup_name_stats :: UserStats where
  "markup_name_stats =
     \<lparr>username = ascii ''eve<td>99'', total_questions = 10, easy_count = 5,
      medium_count = 3, hard_count = 2\<rparr>"

section \<open>The loops and the sort\<close>

lemma text_loop_append: "text_loop i xs out = out @ text_loop i xs []"
proof (induction xs arbitrary: i out)
  case Nil show ?case by simp
next
  case (Cons x xs)
  have "text_loop i (x # xs) out = text_loop (Suc i) xs (out @ [text_row i x])" by simp
  also have "\<dots> = (out @ [text_row i x]) @ text_loop (Suc i) xs []" by (rule Cons.IH)
  also have "\<dots> = out @ text_loop (Suc i) xs ([] @ [text_row i x])"
    using Cons.IH [of "Suc i" "[text_row i x]"] by simp
  finally show ?case by simp
qed

lemma text_loop_length: "length (text_loop i xs out) = length out + length xs"
  by (induction xs arbitrary: i out) auto

lemma text_loop_nth:
  "k < length xs \<Longrightarrow> text_loop i xs out ! (length out + k) = text_row (i + k) (xs ! k)"
proof (induction xs arbitrary: i out k)
  case Nil then show ?case by simp
next
  case (Cons x xs)
  show ?case
  proof (cases k)
    case 0
    have "text_loop i (x # xs) out = (out @ [text_row i x]) @ text_loop (Suc i) xs []"
      using text_loop_append [of "Suc i" xs "out @ [text_row i x]"] by simp
    then show ?thesis using 0 by (simp add: nth_append)
  next
    case (Suc j)
    then have "j < length xs" using Cons.prems by simp
    from Cons.IH [OF this, of "Suc i" "out @ [text_row i x]"] show ?thesis using Suc by simp
  qed
qed

lemma sorted_builtin_desc:
  "sorted_wrt (\<lambda>a b. key a \<ge> key b) (sorted_builtin key True xs)"
proof -
  have "sorted (map key (sort_key key (rev xs)))" by (rule sorted_sort_key)
  then have "sorted_wrt (\<lambda>a b. key a \<le> key b) (sort_key key (rev xs))"
    by (simp add: sorted_wrt_map)
  then show ?thesis
    by (simp add: sorted_builtin_def sorted_wrt_rev)
qed

lemma sorted_builtin_stable:
  "filter (\<lambda>x. key x = k) (sorted_builtin key True xs) = filter (\<lambda>x. key x = k) xs"
  by (simp add: sorted_builtin_def rev_filter [symmetric] sort_key_stable)

lemma sorted_builtin_mset: "mset (sorted_builtin key r xs) = mset xs"
  by (simp add: sorted_builtin_def)

lemma sorted_builtin_length: "length (sorted_builtin key r xs) = length xs"
  by (simp add: sorted_builtin_def)

lemma text_output_struct:
  "text_output xs d m = [text_title d, RULE, text_column_header, RULE]
     @ text_loop 0 (sorted_builtin total_questions True xs) []
     @ [RULE] @ (case m of None \<Rightarrow> [] | Some c \<Rightarrow> if c = [] then [] else [c])"
  using text_loop_append [of 0 "sorted_builtin total_questions True xs" "[text_title d, RULE, text_column_header, RULE]"]
  by (simp add: text_output_def Let_def split: option.splits)

lemma html_loop_append: "html_loop i xs out = out @ html_loop i xs []"
proof (induction xs arbitrary: i out)
  case Nil show ?case by simp
next
  case (Cons x xs)
  have "html_loop i (x # xs) out = (out @ html_row i x) @ html_loop (Suc i) xs []"
    using Cons.IH [of "Suc i" "out @ html_row i x"] by simp
  also have "\<dots> = out @ html_loop (Suc i) xs (html_row i x)"
    using Cons.IH [of "Suc i" "html_row i x"] by simp
  finally show ?case by simp
qed

lemma text_loop_enumerate:
  "text_loop i xs [] = map (\<lambda>(j, s). text_row j s) (enumerate i xs)"
proof (induction xs arbitrary: i)
  case Nil show ?case by simp
next
  case (Cons x xs)
  have "text_loop i (x # xs) [] = [text_row i x] @ text_loop (Suc i) xs []"
    using text_loop_append [of "Suc i" xs "[text_row i x]"] by simp
  then show ?case using Cons.IH [of "Suc i"] by simp
qed

lemma html_loop_enumerate:
  "html_loop i xs [] = concat (map (\<lambda>(j, s). html_row j s) (enumerate i xs))"
proof (induction xs arbitrary: i)
  case Nil show ?case by simp
next
  case (Cons x xs)
  have "html_loop i (x # xs) [] = html_row i x @ html_loop (Suc i) xs []"
    using html_loop_append [of "Suc i" xs "html_row i x"] by simp
  then show ?case using Cons.IH [of "Suc i"] by simp
qed

lemma html_output_struct:
  "html_output xs d m = html_head @ html_stats_header d
     @ html_loop 0 (sorted_builtin total_questions True xs) []
     @ [ascii ''</table>''] @ (case m of None \<Rightarrow> [] | Some c \<Rightarrow> if c = [] then [] else [html_message c])
     @ [ascii ''</body>'', ascii ''</html>'']"
  using html_loop_append [of 0 "sorted_builtin total_questions True xs" "html_head @ html_stats_header d"]
  by (simp add: html_output_def Let_def split: option.splits)

lemma length_html_row: "length (html_row i s) = 7" by (simp add: html_row_def)
lemma length_html_head: "length html_head = 19" by (simp add: html_head_def)
lemma length_html_stats_header: "length (html_stats_header d) = 9" by (simp add: html_stats_header_def)

lemma length_html_loop: "length (html_loop i xs []) = 7 * length xs"
  by (induction xs arbitrary: i) (simp_all add: html_loop_append [of _ _ "html_row _ _"] length_html_row)

lemma length_text_loop: "length (text_loop i xs []) = length xs"
  by (simp add: text_loop_enumerate)

lemma insort_key_map:
  "insort_key g (h x) (map h xs) = map h (insort_key (\<lambda>y. g (h y)) x xs)"
  by (induction xs) simp_all

lemma sort_key_map: "sort_key g (map h xs) = map h (sort_key (\<lambda>y. g (h y)) xs)"
  by (induction xs) (simp_all add: insort_key_map)

lemma sorted_builtin_map:
  "sorted_builtin g r (map h xs) = map h (sorted_builtin (\<lambda>y. g (h y)) r xs)"
  by (simp add: sorted_builtin_def sort_key_map rev_map)

lemma sorted_builtin_zip:
  "map snd (sorted_builtin fst True (zip (map k xs) xs)) = sorted_builtin k True xs"
proof -
  have "zip (map k xs) xs = map (\<lambda>x. (k x, x)) xs"
    by (induction xs) simp_all
  then show ?thesis
    by (simp add: sorted_builtin_map [of fst True "\<lambda>x. (k x, x)"] o_def)
qed


lemma replicate_numeral: "replicate (numeral k) x = x # replicate (pred_numeral k) x"
  by (simp add: numeral_eq_Suc)

section \<open>Ranking\<close>

text \<open>
  Claim C1. In both renderers the data rows (the lines after the four header lines of the
  text report, and the seven-line groups after the twenty-eight header lines of the HTML
  report) are the rows of the records in the order of \<open>sorted_stats\<close>, numbered from
  zero; \<open>sorted_stats\<close> is in descending order of \<open>total_questions\<close>, and for every
  total the records with that total appear in the order they have in the input.
\<close>

theorem ranked_rows_descending_stable:
  "take (length xs) (drop 4 (text_output xs d m))
     = map (\<lambda>(i, s). text_row i s) (enumerate 0 (sorted_builtin total_questions True xs))
   \<and> take (7 * length xs) (drop 28 (html_output xs d m))
     = concat (map (\<lambda>(i, s). html_row i s) (enumerate 0 (sorted_builtin total_questions True xs)))
   \<and> sorted_wrt (\<lambda>a b. total_questions a \<ge> total_questions b) (sorted_builtin total_questions True xs)
   \<and> (\<forall>k. filter (\<lambda>s. total_questions s = k) (sorted_builtin total_questions True xs)
          = filter (\<lambda>s. total_questions s = k) xs)"
proof -
  let ?r = "sorted_builtin total_questions True xs"
  have l: "length ?r = length xs" by (rule sorted_builtin_length)
  have a: "take (length xs) (drop 4 (text_output xs d m)) = text_loop 0 ?r []"
    by (simp add: text_output_struct length_text_loop l)
  have "drop 28 (html_output xs d m) = html_loop 0 ?r []
     @ [ascii ''</table>''] @ (case m of None \<Rightarrow> [] | Some c \<Rightarrow> if c = [] then [] else [html_message c])
     @ [ascii ''</body>'', ascii ''</html>'']"
    by (simp add: html_output_struct length_html_head length_html_stats_header)
  then have b: "take (7 * length xs) (drop 28 (html_output xs d m)) = html_loop 0 ?r []"
    by (simp add: length_html_loop l)
  show ?thesis
    using a b sorted_builtin_desc [of total_questions xs] sorted_builtin_stable [of total_questions _ xs]
    by (simp add: text_loop_enumerate html_loop_enumerate)
qed

section \<open>Rows and medals\<close>

lemma str_nat_digits: "c \<in> set (str_nat n) \<Longrightarrow> 48 \<le> c \<and> c \<le> 57"
proof (induction n rule: str_nat.induct)
  case (1 n)
  show ?case
  proof (cases "n < 10")
    case True
    with "1.prems" show ?thesis by (simp add: str_nat.simps [of n])
  next
    case False
    with "1.prems" have "c \<in> set (str_nat (n div 10)) \<or> c = 48 + n mod 10"
      by (auto simp add: str_nat.simps [of n])
    then show ?thesis
    proof
      assume "c \<in> set (str_nat (n div 10))"
      with "1.IH" False show ?thesis by simp
    next
      assume "c = 48 + n mod 10"
      moreover have "n mod 10 < 10" by simp
      ultimately show ?thesis by linarith
    qed
  qed
qed

lemma str_nat_nonempty: "str_nat n \<noteq> []"
  by (simp add: str_nat.simps [of n])

lemma str_int_nonempty: "str_int i \<noteq> []"
  by (simp add: str_int_def str_nat_nonempty)

lemma str_int_chars: "c \<in> set (str_int i) \<Longrightarrow> c = 45 \<or> (48 \<le> c \<and> c \<le> 57)"
  using str_nat_digits by (auto simp: str_int_def split: if_splits)

lemma text_output_nth:
  assumes "i < length xs"
  shows "text_output xs d m ! (4 + i) = text_row i (sorted_builtin total_questions True xs ! i)"
proof -
  let ?r = "sorted_builtin total_questions True xs"
  have i: "i < length ?r" using assms by (simp add: sorted_builtin_length)
  have "text_output xs d m ! (4 + i) = text_loop 0 ?r [] ! i"
    using i by (simp add: text_output_struct nth_append length_text_loop)
  also have "\<dots> = text_row i (?r ! i)"
    using text_loop_nth [OF i, of 0 "[]"] by simp
  finally show ?thesis .
qed

lemma html_loop_nth:
  "k < length xs \<Longrightarrow> j < 7 \<Longrightarrow> html_loop i xs [] ! (7 * k + j) = html_row (i + k) (xs ! k) ! j"
proof (induction xs arbitrary: i k)
  case Nil then show ?case by simp
next
  case (Cons x xs)
  have e: "html_loop i (x # xs) [] = html_row i x @ html_loop (Suc i) xs []"
    using html_loop_append [of "Suc i" xs "html_row i x"] by simp
  show ?case
  proof (cases k)
    case 0
    then show ?thesis using Cons.prems
      unfolding e by (simp add: nth_append length_html_row)
  next
    case (Suc k')
    then have "k' < length xs" using Cons.prems by simp
    from Cons.IH [OF this Cons.prems(2), of "Suc i"] show ?thesis
      using Suc unfolding e by (simp add: nth_append length_html_row)
  qed
qed

lemma html_output_nth:
  assumes "i < length xs" and "j < 7"
  shows "html_output xs d m ! (28 + 7 * i + j)
           = html_row i (sorted_builtin total_questions True xs ! i) ! j"
proof -
  let ?r = "sorted_builtin total_questions True xs"
  have i: "i < length ?r" using assms by (simp add: sorted_builtin_length)
  have "7 * i + j < 7 * length ?r" using i assms(2) by simp
  then have "html_output xs d m ! (28 + 7 * i + j) = html_loop 0 ?r [] ! (7 * i + j)"
    by (simp add: html_output_struct nth_append length_html_head length_html_stats_header
        length_html_loop)
  also have "\<dots> = html_row i (?r ! i) ! j"
    using html_loop_nth [OF i assms(2), of 0] by simp
  finally show ?thesis .
qed

lemma medal_big: "g \<in> {GOLD, SILVER, BRONZE} \<Longrightarrow> 57 < g"
  by (auto simp: GOLD_def SILVER_def BRONZE_def)

lemma text_row_plain_tail:
  "\<exists>a b rest. text_row (Suc (Suc (Suc k))) s = username s @ a # b # rest \<and> b \<le> 57"
proof -
  obtain c cs where c: "str_int (total_questions s) = c # cs"
    using str_int_nonempty [of "total_questions s"] by (cases "str_int (total_questions s)") auto
  have "c \<in> set (str_int (total_questions s))" using c by simp
  then have c57: "c \<le> 57" using str_int_chars by fastforce
  let ?k = "25 - length (username s)"
  consider "?k = 0" | "?k = 1" | k' where "?k = Suc (Suc k')"
    by (cases ?k; simp) (metis One_nat_def not0_implies_Suc)
  then show ?thesis
  proof cases
    case 1
    then show ?thesis using c c57
      by (simp add: text_row_def text_username_display_def ljust_def ascii_def)
  next
    case 2
    then show ?thesis
      by (simp add: text_row_def text_username_display_def ljust_def ascii_def)
  next
    case 3
    then show ?thesis
      by (simp add: text_row_def text_username_display_def ljust_def ascii_def)
  qed
qed

lemma text_row_has_medal_iff:
  assumes "g \<in> {GOLD, SILVER, BRONZE}"
  shows "text_row_has_medal (text_row i s) (username s) g \<longleftrightarrow> medal_of_rank i = Some g"
proof -
  consider "i = 0" | "i = 1" | "i = 2" | k where "i = Suc (Suc (Suc k))"
    by (metis One_nat_def Suc_1 not0_implies_Suc)
  then show ?thesis
  proof cases
    case 1
    then show ?thesis
      by (auto simp add: text_row_has_medal_def medal_of_rank_def text_row_def
          text_username_display_def ljust_def ascii_def)
  next
    case 2
    then show ?thesis using assms
      by (auto simp add: text_row_has_medal_def medal_of_rank_def text_row_def
          text_username_display_def ljust_def ascii_def GOLD_def SILVER_def BRONZE_def)
  next
    case 3
    then show ?thesis using assms
      by (auto simp add: text_row_has_medal_def medal_of_rank_def text_row_def
          text_username_display_def ljust_def ascii_def GOLD_def SILVER_def BRONZE_def)
  next
    case 4
    obtain a b rest where r: "text_row (Suc (Suc (Suc k))) s = username s @ a # b # rest"
      and b: "b \<le> 57"
      using text_row_plain_tail [of k s] by auto
    have "57 < g" using assms by (rule medal_big)
    then show ?thesis using b 4
      by (auto simp add: text_row_has_medal_def medal_of_rank_def r)
  qed
qed

lemma html_cell_has_medal_iff:
  assumes "g \<in> {GOLD, SILVER, BRONZE}"
  shows "html_cell_has_medal (html_row i s ! 1) (username s) g \<longleftrightarrow> medal_of_rank i = Some g"
  using assms
  by (auto simp add: html_cell_has_medal_def medal_of_rank_def html_row_def html_medal_def
      ascii_def GOLD_def SILVER_def BRONZE_def)

text \<open>
  Claim C2. For every rank \<open>i\<close> below the number of records and each of the three medal
  glyphs \<open>g\<close>: the text row at rank \<open>i\<close> carries \<open>g\<close> exactly when \<open>g\<close> is the medal
  of that rank (gold for 0, silver for 1, bronze for 2, none from 3 on), and so does the
  user-name cell of the HTML row at rank \<open>i\<close>. A list of fewer than three records has
  only the ranks below its length.
\<close>

theorem medals_by_rank:
  assumes "i < length xs" and "g \<in> {GOLD, SILVER, BRONZE}"
  shows "(text_row_has_medal (text_output xs d m ! (4 + i))
            (username (sorted_builtin total_questions True xs ! i)) g
          \<longleftrightarrow> medal_of_rank i = Some g)
       \<and> (html_cell_has_medal (html_output xs d m ! (28 + 7 * i + 1))
            (username (sorted_builtin total_questions True xs ! i)) g
          \<longleftrightarrow> medal_of_rank i = Some g)"
  using text_row_has_medal_iff [OF assms(2)] html_cell_has_medal_iff [OF assms(2)]
    text_output_nth [OF assms(1)] html_output_nth [OF assms(1), of 1]
  by simp

text \<open>The example: bob, second of the two users with ten questions, has the silver medal.\<close>

lemma example_sorted: "sorted_builtin total_questions True example_stats = example_stats"
  by (simp add: sorted_builtin_def example_stats_def)

theorem medals_by_rank_witness:
  "(1::nat) < length example_stats \<and> SILVER \<in> {GOLD, SILVER, BRONZE}
   \<and> username (sorted_builtin total_questions True example_stats ! 1) = ascii ''bob''
   \<and> text_row_has_medal (text_output example_stats 7 None ! (4 + 1)) (ascii ''bob'') SILVER
   \<and> html_cell_has_medal (html_output example_stats 7 None ! (28 + 7 * 1 + 1)) (ascii ''bob'') SILVER"
proof -
  have l: "(1::nat) < length example_stats" by (simp add: example_stats_def)
  have g: "SILVER \<in> {GOLD, SILVER, BRONZE}" by simp
  have u: "username (sorted_builtin total_questions True example_stats ! 1) = ascii ''bob''"
    by (simp add: example_sorted) (simp add: example_stats_def)
  have r: "medal_of_rank 1 = Some SILVER" by (simp add: medal_of_rank_def)
  show ?thesis
    using medals_by_rank [OF l g, of 7 None] l g u r by simp
qed

section \<open>The completion message\<close>

text \<open>
  Claim C10. With the empty string as completion message both renderers return what they
  return without a message: the text report ends with the closing rule and the HTML
  report has the closing lines of the table, the body and the document right after the
  rows, with no message line between them.
\<close>

theorem empty_message_is_no_message:
  "TextPresenter_present_stats xs d (Some []) = TextPresenter_present_stats xs d None
   \<and> HtmlPresenter_present_stats xs d (Some []) = HtmlPresenter_present_stats xs d None
   \<and> text_output xs d (Some []) = [text_title d, RULE, text_column_header, RULE]
       @ map (\<lambda>(i, s). text_row i s) (enumerate 0 (sorted_builtin total_questions True xs)) @ [RULE]
   \<and> html_output xs d (Some []) = html_head @ html_stats_header d
       @ concat (map (\<lambda>(i, s). html_row i s) (enumerate 0 (sorted_builtin total_questions True xs)))
       @ [ascii ''</table>'', ascii ''</body>'', ascii ''</html>'']"
  by (simp add: TextPresenter_present_stats_def HtmlPresenter_present_stats_def
      text_output_struct html_output_struct text_loop_enumerate html_loop_enumerate)

lemma str_join_snoc: "ps \<noteq> [] \<Longrightarrow> str_join sep (ps @ [p]) = str_join sep ps @ sep @ p"
  by (induction sep ps rule: str_join.induct) auto

lemma text_output_None_last:
  "text_output xs d None \<noteq> [] \<and> last (text_output xs d None) = RULE"
  by (simp add: text_output_struct)

lemma text_output_Some:
  "m \<noteq> [] \<Longrightarrow> text_output xs d (Some m) = text_output xs d None @ [m]"
  by (simp add: text_output_struct)

text \<open>
  Claim C8 as stated fails for the empty message: it is supplied, and the report does not
  end with a newline followed by it.
\<close>

theorem completion_message_final_line_counterexample:
  "\<not> (\<forall>xs d m. TextPresenter_present_stats xs d (Some m)
                  = TextPresenter_present_stats xs d None @ [10] @ m)"
proof
  assume "\<forall>xs d m. TextPresenter_present_stats xs d (Some m)
                  = TextPresenter_present_stats xs d None @ [10] @ m"
  then have "TextPresenter_present_stats [] 7 (Some [])
               = TextPresenter_present_stats [] 7 None @ [10] @ []" by blast
  then have "length (TextPresenter_present_stats [] 7 None)
               = length (TextPresenter_present_stats [] 7 None @ [10])"
    by (simp add: TextPresenter_present_stats_def text_output_struct)
  then show False by simp
qed

text \<open>
  Claim C8, amended. When a non-empty completion message is supplied, the text report is
  the report without a message, a newline and the message, verbatim; the message is the
  last element of the output list, which is one longer. Without a message the last line
  is the closing rule.
\<close>

theorem completion_message_final_line:
  assumes "m \<noteq> []"
  shows "TextPresenter_present_stats xs d (Some m)
           = TextPresenter_present_stats xs d None @ [10] @ m
       \<and> last (text_output xs d (Some m)) = m
       \<and> last (text_output xs d None) = RULE
       \<and> length (text_output xs d (Some m)) = Suc (length (text_output xs d None))"
  using assms text_output_None_last [of xs d]
  by (simp add: TextPresenter_present_stats_def text_output_Some str_join_snoc)

theorem completion_message_final_line_witness:
  "ascii ''Done'' \<noteq> []
   \<and> TextPresenter_present_stats example_stats 7 (Some (ascii ''Done''))
       = TextPresenter_present_stats example_stats 7 None @ [10] @ ascii ''Done''
   \<and> last (text_output example_stats 7 (Some (ascii ''Done''))) = ascii ''Done''"
proof -
  have h: "ascii ''Done'' \<noteq> []" by (simp add: ascii_def)
  show ?thesis using completion_message_final_line [OF h, of example_stats 7] h by simp
qed

section \<open>The factory\<close>

lemma lower_cp_nonempty: "unicode_lower u \<Longrightarrow> lower_cp u c \<noteq> []"
  by (simp add: lower_cp_def unicode_lower_def)

lemma lower_cp_good:
  assumes "unicode_lower u" and "set (lower_cp u c) \<subseteq> {104, 116, 109, 108}"
  shows "c < 128 \<and> lower_cp u c = [if 65 \<le> c \<and> c \<le> 90 then c + 32 else c]"
proof -
  have "c < 128"
  proof (rule ccontr)
    assume "\<not> c < 128"
    then have "128 \<le> c" by simp
    then have "\<not> set (u c) \<subseteq> {104, 116, 109, 108}" and "lower_cp u c = u c"
      using assms(1) by (simp_all add: unicode_lower_def lower_cp_def)
    with assms(2) show False by simp
  qed
  then show ?thesis by (simp add: lower_cp_def)
qed

lemma concat_lower_Cons:
  assumes u: "unicode_lower u"
    and e: "concat (map (lower_cp u) s) = x # t"
    and g: "set (x # t) \<subseteq> {104, 116, 109, 108}"
  shows "\<exists>c s'. s = c # s' \<and> c < 128 \<and> (if 65 \<le> c \<and> c \<le> 90 then c + 32 else c) = x
           \<and> concat (map (lower_cp u) s') = t"
proof (cases s)
  case Nil
  with e show ?thesis by simp
next
  case (Cons c s')
  have sub: "set (lower_cp u c) \<subseteq> {104, 116, 109, 108}"
  proof -
    have "set (lower_cp u c) \<subseteq> set (concat (map (lower_cp u) s))" using Cons by auto
    with e g show ?thesis by auto
  qed
  from lower_cp_good [OF u sub] e Cons show ?thesis by simp
qed

lemma str_lower_html_imp:
  assumes u: "unicode_lower u" and e: "str_lower u s = ascii ''html''"
  shows "is_html_key s"
proof -
  have e0: "concat (map (lower_cp u) s) = [104, 116, 109, 108]"
    using e by (simp add: str_lower_def ascii_def)
  obtain c0 s0 where s: "s = c0 # s0" and c0: "c0 < 128"
    "(if 65 \<le> c0 \<and> c0 \<le> 90 then c0 + 32 else c0) = 104"
    and e1: "concat (map (lower_cp u) s0) = [116, 109, 108]"
    using concat_lower_Cons [OF u e0] by auto
  obtain c1 s1 where s0: "s0 = c1 # s1" and c1: "c1 < 128"
    "(if 65 \<le> c1 \<and> c1 \<le> 90 then c1 + 32 else c1) = 116"
    and e2: "concat (map (lower_cp u) s1) = [109, 108]"
    using concat_lower_Cons [OF u e1] by auto
  obtain c2 s2 where s1: "s1 = c2 # s2" and c2: "c2 < 128"
    "(if 65 \<le> c2 \<and> c2 \<le> 90 then c2 + 32 else c2) = 109"
    and e3: "concat (map (lower_cp u) s2) = [108]"
    using concat_lower_Cons [OF u e2] by auto
  obtain c3 s3 where s2: "s2 = c3 # s3" and c3: "c3 < 128"
    "(if 65 \<le> c3 \<and> c3 \<le> 90 then c3 + 32 else c3) = 108"
    and e4: "concat (map (lower_cp u) s3) = []"
    using concat_lower_Cons [OF u e3] by auto
  have "s3 = []"
  proof (cases s3)
    case Nil then show ?thesis .
  next
    case (Cons c s')
    with e4 lower_cp_nonempty [OF u, of c] show ?thesis by simp
  qed
  moreover have "c0 \<in> {104, 72}" using c0 by (auto split: if_splits)
  moreover have "c1 \<in> {116, 84}" using c1 by (auto split: if_splits)
  moreover have "c2 \<in> {109, 77}" using c2 by (auto split: if_splits)
  moreover have "c3 \<in> {108, 76}" using c3 by (auto split: if_splits)
  ultimately show ?thesis by (simp add: is_html_key_def s s0 s1 s2)
qed

lemma length_four: "length (s::'a list) = 4 \<Longrightarrow> \<exists>a b c d. s = [a, b, c, d]"
  by (simp add: numeral_eq_Suc length_Suc_conv) blast

lemma is_html_key_imp:
  assumes "is_html_key s"
  shows "str_lower u s = ascii ''html''"
proof -
  have "length s = 4" using assms by (simp add: is_html_key_def)
  then obtain a b c d where s: "s = [a, b, c, d]"
    using length_four by blast
  have a: "a = 104 \<or> a = 72" and b: "b = 116 \<or> b = 84" and c: "c = 109 \<or> c = 77"
    and d: "d = 108 \<or> d = 76"
    using assms by (simp_all add: s is_html_key_def)
  have la: "lower_cp u a = [104]" using a by (auto simp add: lower_cp_def)
  have lb: "lower_cp u b = [116]" using b by (auto simp add: lower_cp_def)
  have lc: "lower_cp u c = [109]" using c by (auto simp add: lower_cp_def)
  have ld: "lower_cp u d = [108]" using d by (auto simp add: lower_cp_def)
  show ?thesis
    by (simp add: s str_lower_def la lb lc ld ascii_def)
qed

text \<open>
  Claim C4. Whatever the key, \<open>get_presenter\<close> returns a presenter and raises nothing:
  the HTML presenter when the key is \<open>html\<close> up to the case of its letters, the text
  presenter for every other key, and the text presenter when the key is left out. The
  hypothesis is the fact about Unicode lower-casing stated with \<open>unicode_lower\<close>.
\<close>

theorem get_presenter_html_iff:
  assumes "unicode_lower u"
  shows "get_presenter u key = (if is_html_key key then HtmlPresenter else TextPresenter)
       \<and> get_presenter_default u = TextPresenter"
proof -
  have "str_lower u key = ascii ''html'' \<longleftrightarrow> is_html_key key"
    using str_lower_html_imp [OF assms] is_html_key_imp by blast
  moreover have "\<not> is_html_key (ascii ''text'')"
    by (simp add: is_html_key_def ascii_def)
  then have "str_lower u (ascii ''text'') \<noteq> ascii ''html''"
    using str_lower_html_imp [OF assms] by blast
  ultimately show ?thesis
    by (simp add: get_presenter_def get_presenter_default_def)
qed

theorem get_presenter_html_iff_witness:
  "unicode_lower (\<lambda>c. [c])
   \<and> get_presenter (\<lambda>c. [c]) (ascii ''HtMl'') = HtmlPresenter
   \<and> get_presenter (\<lambda>c. [c]) (ascii ''pdf'') = TextPresenter
   \<and> get_presenter (\<lambda>c. [c]) (ascii ''html '') = TextPresenter
   \<and> get_presenter_default (\<lambda>c. [c]) = TextPresenter"
proof -
  have u: "unicode_lower (\<lambda>c. [c])" by (simp add: unicode_lower_def)
  have a: "is_html_key (ascii ''HtMl'')" by (simp add: is_html_key_def ascii_def)
  have b: "\<not> is_html_key (ascii ''pdf'')" by (simp add: is_html_key_def ascii_def)
  have c: "\<not> is_html_key (ascii ''html '')" by (simp add: is_html_key_def ascii_def)
  show ?thesis
    using get_presenter_html_iff [OF u, of "ascii ''HtMl''"]
      get_presenter_html_iff [OF u, of "ascii ''pdf''"]
      get_presenter_html_iff [OF u, of "ascii ''html ''"] u a b c
    by simp
qed

section \<open>Writing the report to a file\<close>








section \<open>What the renderers raise\<close>



lemma bind_err_Inr: "bind_err (Inr v) f = f v"
  by (simp add: bind_err_def)

lemma bind_err_Inl: "bind_err (Inl e) f = Inl e"
  by (simp add: bind_err_def)

lemma int_to_str_within: "within lim i \<Longrightarrow> int_to_str lim i = Inr (str_int i)"
  by (auto simp add: within_def int_to_str_def)

lemma within_0: "within 0 i"
  by (simp add: within_def)

lemma digits_lower: "10 ^ k \<le> n \<Longrightarrow> k < length (str_nat n)"
proof (induction k arbitrary: n)
  case 0
  then show ?case using str_nat_nonempty [of n] by (cases "str_nat n") simp_all
next
  case (Suc k)
  then have n: "\<not> n < 10"
    by (metis (no_types, opaque_lifting) One_nat_def Suc_1 le_trans linorder_not_less
        mult.right_neutral mult_le_mono2 one_le_numeral one_le_power power_Suc)
  have "10 ^ k \<le> n div 10" using Suc.prems by (simp add: less_eq_div_iff_mult_less_eq mult.commute)
  then have "k < length (str_nat (n div 10))" by (rule Suc.IH)
  then show ?case using n by (simp add: str_nat.simps [of n])
qed

lemma int_to_str_power: "0 < lim \<Longrightarrow> int_to_str lim (10 ^ lim) = Inl ValueError"
proof -
  assume l: "0 < lim"
  have e: "nat \<bar>(10::int) ^ lim\<bar> = 10 ^ lim" by (simp add: nat_power_eq)
  have "digits (10 ^ lim) = length (str_nat (10 ^ lim))" by (simp only: digits_def e)
  moreover have "lim < length (str_nat (10 ^ lim))" by (rule digits_lower) simp
  ultimately have "lim < digits (10 ^ lim)" by simp
  with l show ?thesis by (simp add: int_to_str_def)
qed


subsection \<open>Well-formed records\<close>









subsection \<open>What is raised\<close>















subsection \<open>Missing attributes\<close>


















subsection \<open>Claims\<close>




subsection \<open>The empty list\<close>

text \<open>
  Claim C6 as stated fails for some values of \<open>days\<close>: with the default digit limit of
  CPython 3.11, the number 1 followed by 4300 zeros cannot be converted to a string, and
  both renderers raise \<open>ValueError\<close> for the empty list.
\<close>

theorem empty_stats_digit_limit_counterexample:
  "TextPresenter_present_stats_obj 4300 [] (10 ^ 4300) None = Inl ValueError
   \<and> HtmlPresenter_present_stats_obj 4300 [] (10 ^ 4300) None = Inl ValueError"
proof -
  have s: "sorted_obj [] = Inr []" by (simp add: sorted_obj_def bind_err_Inr)
  have "int_to_str 4300 (10 ^ 4300) = Inl ValueError" by (rule int_to_str_power) simp
  then show ?thesis
    by (simp only: TextPresenter_present_stats_obj_def HtmlPresenter_present_stats_obj_def s
        bind_err_Inr bind_err_Inl simp_thms)
qed

text \<open>
  Claim C6, amended. For the empty list and every \<open>days\<close> within the digit limit of the
  interpreter, both renderers return a report and no error. The text report is the blank
  line, the title, the rule of 80 dashes, the column header, and the rule twice, the
  second being the footer; the HTML report is the head, the heading, the header row of
  the table and the closing lines. There is no data row, and a non-empty completion
  message follows as in every report.
\<close>

theorem empty_stats_header_and_footer:
  assumes "within lim d"
  shows "TextPresenter_present_stats_obj lim [] d m
           = Inr (10 # ascii ''LeetCode Statistics (Last '' @ str_int d @ ascii '' Days)'' @ [10]
        @ replicate 80 45 @ [10]
        @ ascii ''Username                  Total Questions Easy       Medium     Hard      '' @ [10]
        @ replicate 80 45 @ [10]
        @ replicate 80 45
                  @ (case m of None \<Rightarrow> [] | Some c \<Rightarrow> if c = [] then [] else 10 # c))
       \<and> HtmlPresenter_present_stats_obj lim [] d m
           = Inr (ascii ''<!DOCTYPE html>''
        @ [10] @ ascii ''<html>''
        @ [10] @ ascii ''<head>''
        @ [10] @ ascii ''    <meta charset='UTF-8'>''
        @ [10] @ ascii ''    <meta name='viewport' content='width=device-width, initial-scale=1.0'>''
        @ [10] @ ascii ''    <title>LeetCode Accountability Report</title>''
        @ [10] @ ascii ''    <style>''
        @ [10] @ ascii ''        body { font-family: Arial, sans-serif; margin: 20px; }''
        @ [10] @ ascii ''        h1 { color: #333; }''
        @ [10] @ ascii ''        table { border-collapse: collapse; width: 100%; margin-top: 20px; }''
        @ [10] @ ascii ''        th, td { padding: 12px; text-align: left; border-bottom: 1px solid #ddd; }''
        @ [10] @ ascii ''        th { background-color: #f2f2f2; }''
        @ [10] @ ascii ''        tr:hover { background-color: #f5f5f5; }''
        @ [10] @ ascii ''        .message { margin: 20px 0; padding: 15px; background-color: #f8f9fa; border-left: 5px solid #4285f4; }''
        @ [10] @ ascii ''        .first-place { font-weight: bold; }''
        @ [10] @ ascii ''        .medal { font-size: 1.2em; }''
        @ [10] @ ascii ''    </style>''
        @ [10] @ ascii ''</head>''
        @ [10] @ ascii ''<body>''
        @ [10] @ ascii ''<h1>LeetCode Statistics (Last '' @ str_int d @ ascii '' Days)</h1>''
        @ [10] @ ascii ''<table>''
        @ [10] @ ascii ''    <tr>''
        @ [10] @ ascii ''        <th>Username</th>''
        @ [10] @ ascii ''        <th>Total Questions</th>''
        @ [10] @ ascii ''        <th>Easy</th>''
        @ [10] @ ascii ''        <th>Medium</th>''
        @ [10] @ ascii ''        <th>Hard</th>''
        @ [10] @ ascii ''    </tr>''
        @ [10] @ ascii ''</table>''
                  @ (case m of None \<Rightarrow> []
                     | Some c \<Rightarrow> if c = [] then []
                                 else 10 # ascii ''<div class='message'>'' @ c @ ascii ''</div>'')
                  @ [10] @ ascii ''</body>'' @ [10] @ ascii ''</html>'')"
proof -
  have s: "sorted_obj [] = Inr []" by (simp add: sorted_obj_def bind_err_Inr)
  have t: "text_column_header
      = ascii ''Username                  Total Questions Easy       Medium     Hard      ''"
    by (simp add: text_column_header_def ljust_def ascii_def replicate_numeral)
  show ?thesis
    using assms
    by (simp add: TextPresenter_present_stats_obj_def HtmlPresenter_present_stats_obj_def s
        bind_err_Inr int_to_str_within RULE_def t html_head_def html_message_def Let_def
        split: option.splits)
qed

theorem empty_stats_header_and_footer_witness:
  "within 4300 7
   \<and> TextPresenter_present_stats_obj 4300 [] 7 None
       = Inr (10 # ascii ''LeetCode Statistics (Last 7 Days)'' @ [10]
        @ replicate 80 45 @ [10]
        @ ascii ''Username                  Total Questions Easy       Medium     Hard      '' @ [10]
        @ replicate 80 45 @ [10]
        @ replicate 80 45)
   \<and> HtmlPresenter_present_stats_obj 4300 [] 7 None
       = Inr (ascii ''<!DOCTYPE html>''
        @ [10] @ ascii ''<html>''
        @ [10] @ ascii ''<head>''
        @ [10] @ ascii ''    <meta charset='UTF-8'>''
        @ [10] @ ascii ''    <meta name='viewport' content='width=device-width, initial-scale=1.0'>''
        @ [10] @ ascii ''    <title>LeetCode Accountability Report</title>''
        @ [10] @ ascii ''    <style>''
        @ [10] @ ascii ''        body { font-family: Arial, sans-serif; margin: 20px; }''
        @ [10] @ ascii ''        h1 { color: #333; }''
        @ [10] @ ascii ''        table { border-collapse: collapse; width: 100%; margin-top: 20px; }''
        @ [10] @ ascii ''        th, td { padding: 12px; text-align: left; border-bottom: 1px solid #ddd; }''
        @ [10] @ ascii ''        th { background-color: #f2f2f2; }''
        @ [10] @ ascii ''        tr:hover { background-color: #f5f5f5; }''
        @ [10] @ ascii ''        .message { margin: 20px 0; padding: 15px; background-color: #f8f9fa; border-left: 5px solid #4285f4; }''
        @ [10] @ ascii ''        .first-place { font-weight: bold; }''
        @ [10] @ ascii ''        .medal { font-size: 1.2em; }''
        @ [10] @ ascii ''    </style>''
        @ [10] @ ascii ''</head>''
        @ [10] @ ascii ''<body>''
        @ [10] @ ascii ''<h1>LeetCode Statistics (Last 7 Days)</h1>''
        @ [10] @ ascii ''<table>''
        @ [10] @ ascii ''    <tr>''
        @ [10] @ ascii ''        <th>Username</th>''
        @ [10] @ ascii ''        <th>Total Questions</th>''
        @ [10] @ ascii ''        <th>Easy</th>''
        @ [10] @ ascii ''        <th>Medium</th>''
        @ [10] @ ascii ''        <th>Hard</th>''
        @ [10] @ ascii ''    </tr>''
        @ [10] @ ascii ''</table>''
              @ [10] @ ascii ''</body>'' @ [10] @ ascii ''</html>'')"
proof -
  have w: "within 4300 7" by (simp add: within_def digits_def str_nat.simps)
  have s: "str_int 7 = ascii ''7''" by (simp add: str_int_def str_nat.simps ascii_def)
  show ?thesis
    using empty_stats_header_and_footer [OF w, of None] w by (simp add: s ascii_def)
qed

section \<open>The arguments after the call\<close>

lemma key_heap_deref: "key_heap h = (\<lambda>r. total_questions (deref h r))"
  by (rule ext) (simp add: key_heap_def deref_def split: option.splits)

lemma list_value_deref:
  assumes "lists h l = Some refs" and "list_all (\<lambda>r. objects h r \<noteq> None) refs"
  shows "list_value h l = map (deref h) refs"
proof -
  have "list_all (\<lambda>r. objects h r \<noteq> None) refs \<Longrightarrow>
      concat (map (\<lambda>r. case objects h r of None \<Rightarrow> [] | Some s \<Rightarrow> [s]) refs) = map (deref h) refs"
    by (induction refs) (auto simp add: deref_def)
  with assms show ?thesis by (simp add: list_value_def)
qed

lemma text_loop_heap_deref:
  "list_all (\<lambda>r. objects h r \<noteq> None) refs \<Longrightarrow>
     text_loop_heap h i refs out = Some (text_loop i (map (deref h) refs) out)"
  by (induction refs arbitrary: i out) (auto simp add: deref_def)

lemma html_loop_heap_deref:
  "list_all (\<lambda>r. objects h r \<noteq> None) refs \<Longrightarrow>
     html_loop_heap h i refs out = Some (html_loop i (map (deref h) refs) out)"
  by (induction refs arbitrary: i out) (auto simp add: deref_def)

lemma list_all_sorted_builtin:
  "list_all P (sorted_builtin k r xs) = list_all P xs"
proof -
  have "set (sorted_builtin k r xs) = set xs"
    using sorted_builtin_mset [of k r xs] by (rule mset_eq_setD)
  then show ?thesis by (simp add: list_all_iff)
qed

lemma deref_sorted:
  "map (deref h) (sorted_builtin (key_heap h) True refs)
     = sorted_builtin total_questions True (map (deref h) refs)"
  by (simp add: sorted_builtin_map key_heap_deref)

lemma deref_objects: "objects h' = objects h \<Longrightarrow> deref h' = deref h"
  by (rule ext) (simp add: deref_def)

lemma heap_frame:
  assumes ok: "heap_ok h l"
  shows "\<exists>refs h1. lists h l = Some refs \<and> list_all (\<lambda>r. objects h r \<noteq> None) refs
           \<and> sorted_heap h l = Some (h1, next_addr h)
           \<and> lists h1 (next_addr h) = Some (sorted_builtin (key_heap h) True refs)
           \<and> objects h1 = objects h
           \<and> (\<forall>a. lists h a \<noteq> None \<longrightarrow> lists h1 a = lists h a)"
proof -
  obtain refs where r: "lists h l = Some refs"
    and a: "list_all (\<lambda>r. objects h r \<noteq> None) refs"
    and f: "lists h (next_addr h) = None"
    using ok by (auto simp add: heap_ok_def split: option.splits)
  let ?h1 = "h\<lparr>lists := (lists h)(next_addr h \<mapsto> sorted_builtin (key_heap h) True refs),
                next_addr := Suc (next_addr h)\<rparr>"
  have "sorted_heap h l = Some (?h1, next_addr h)"
    using a by (simp add: sorted_heap_def r new_list_def)
  moreover have "\<forall>a. lists h a \<noteq> None \<longrightarrow> lists ?h1 a = lists h a"
    using f by auto
  ultimately show ?thesis using r a by auto
qed

text \<open>
  Claim C9. On a heap as Python keeps it, each \<open>present_stats\<close> returns the report of
  the records of the list and a heap in which every \<open>UserStats\<close> object is what it was
  and every list that existed before the call, the argument among them, has the elements
  it had: the only change is the new list that \<open>sorted\<close> allocates. The presenters
  have no attributes, hence no state of their own.
\<close>

theorem present_stats_leaves_arguments_unchanged:
  assumes "heap_ok h l"
  shows "(\<exists>h'. TextPresenter_present_stats_heap h l d m
                 = Some (h', TextPresenter_present_stats (list_value h l) d m)
              \<and> objects h' = objects h
              \<and> (\<forall>a. lists h a \<noteq> None \<longrightarrow> lists h' a = lists h a)
              \<and> list_value h' l = list_value h l)
       \<and> (\<exists>h'. HtmlPresenter_present_stats_heap h l d m
                 = Some (h', HtmlPresenter_present_stats (list_value h l) d m)
              \<and> objects h' = objects h
              \<and> (\<forall>a. lists h a \<noteq> None \<longrightarrow> lists h' a = lists h a)
              \<and> list_value h' l = list_value h l)"
proof -
  obtain refs h1 where r: "lists h l = Some refs"
    and a: "list_all (\<lambda>r. objects h r \<noteq> None) refs"
    and s: "sorted_heap h l = Some (h1, next_addr h)"
    and n: "lists h1 (next_addr h) = Some (sorted_builtin (key_heap h) True refs)"
    and o: "objects h1 = objects h"
    and k: "\<forall>a. lists h a \<noteq> None \<longrightarrow> lists h1 a = lists h a"
    using heap_frame [OF assms] by blast
  let ?sorted = "sorted_builtin (key_heap h) True refs"
  have a1: "list_all (\<lambda>r. objects h1 r \<noteq> None) ?sorted"
    using a by (simp add: o list_all_sorted_builtin)
  have d: "deref h1 = deref h" using o by (rule deref_objects)
  have v: "list_value h l = map (deref h) refs" using r a by (rule list_value_deref)
  have r1: "lists h1 l = Some refs" using k r by simp
  have v1: "list_value h1 l = list_value h l"
    using list_value_deref [OF r1] a v by (simp add: o d)
  have t: "text_loop_heap h1 0 ?sorted [text_title d, RULE, text_column_header, RULE]
      = Some (text_loop 0 (sorted_builtin total_questions True (list_value h l))
          [text_title d, RULE, text_column_header, RULE])"
    using text_loop_heap_deref [OF a1] by (simp add: d deref_sorted v)
  have w: "html_loop_heap h1 0 ?sorted (html_head @ html_stats_header d)
      = Some (html_loop 0 (sorted_builtin total_questions True (list_value h l))
          (html_head @ html_stats_header d))"
    using html_loop_heap_deref [OF a1] by (simp add: d deref_sorted v)
  have "TextPresenter_present_stats_heap h l d m
      = Some (h1, TextPresenter_present_stats (list_value h l) d m)"
    by (simp add: TextPresenter_present_stats_heap_def s n t TextPresenter_present_stats_def
        text_output_def Let_def split: option.splits)
  moreover have "HtmlPresenter_present_stats_heap h l d m
      = Some (h1, HtmlPresenter_present_stats (list_value h l) d m)"
    by (simp add: HtmlPresenter_present_stats_heap_def s n w HtmlPresenter_present_stats_def
        html_output_def Let_def split: option.splits)
  ultimately show ?thesis using o k v1 by blast
qed

text \<open>The example: after the call the argument is still carol, alice, bob, and the new
  list holds alice, bob, carol.\<close>

theorem present_stats_leaves_arguments_unchanged_witness:
  "heap_ok example_heap 20
   \<and> (\<exists>h'. TextPresenter_present_stats_heap example_heap 20 7 None
              = Some (h', TextPresenter_present_stats (list_value example_heap 20) 7 None)
           \<and> objects h' = objects example_heap
           \<and> lists h' 20 = Some [10, 11, 12]
           \<and> lists h' 21 = Some [11, 12, 10])"
proof -
  have ok: "heap_ok example_heap 20"
    by (simp add: heap_ok_def example_heap_def)
  have l: "lists example_heap 20 = Some [10, 11, 12]"
    by (simp add: example_heap_def)
  have s: "sorted_builtin (key_heap example_heap) True [10, 11, 12] = [11, 12, 10]"
    by (simp add: sorted_builtin_def key_heap_def example_heap_def example_stats_def)
  obtain h' where t: "TextPresenter_present_stats_heap example_heap 20 7 None
              = Some (h', TextPresenter_present_stats (list_value example_heap 20) 7 None)"
    and o: "objects h' = objects example_heap"
    and k: "\<forall>a. lists example_heap a \<noteq> None \<longrightarrow> lists h' a = lists example_heap a"
    using present_stats_leaves_arguments_unchanged [OF ok, of 7 None] by blast
  have "sorted_heap example_heap 20 \<noteq> None"
    using t by (auto simp add: TextPresenter_present_stats_heap_def split: option.splits)
  have h1: "fst (the (sorted_heap example_heap 20)) = h'"
    using t by (auto simp add: TextPresenter_present_stats_heap_def Let_def split: option.splits)
  have "lists (fst (the (sorted_heap example_heap 20))) 21 = Some [11, 12, 10]"
    using s by (simp add: sorted_heap_def new_list_def example_heap_def)
  then have "lists h' 21 = Some [11, 12, 10]" using h1 by simp
  moreover have "lists h' 20 = Some [10, 11, 12]" using k l by simp
  ultimately show ?thesis using ok t o by blast
qed

section \<open>Rendering and reading back\<close>

subsection \<open>Numerals and columns\<close>

lemma digits_value_append:
  "digits_value a (xs @ ys)
     = (case digits_value a xs of None \<Rightarrow> None | Some b \<Rightarrow> digits_value b ys)"
  by (induction xs arbitrary: a) auto

lemma digits_value_str_nat: "digits_value 0 (str_nat n) = Some n"
proof (induction n rule: str_nat.induct)
  case (1 n)
  show ?case
  proof (cases "n < 10")
    case True
    then show ?thesis by (simp add: str_nat.simps [of n])
  next
    case False
    have "n mod 10 < 10" by simp
    then have "digits_value (n div 10) [48 + n mod 10] = Some (10 * (n div 10) + n mod 10)"
      by simp
    with False "1.IH" show ?thesis
      by (simp add: str_nat.simps [of n] digits_value_append)
  qed
qed

lemma parse_nat_str_nat: "parse_nat (str_nat n) = Some n"
  by (simp add: parse_nat_def str_nat_nonempty digits_value_str_nat)

lemma hd_str_nat: "48 \<le> hd (str_nat n)"
proof -
  have "hd (str_nat n) \<in> set (str_nat n)" using str_nat_nonempty by simp
  then show ?thesis using str_nat_digits by blast
qed

lemma parse_int_str_int: "parse_int (str_int i) = Some i"
proof -
  have "hd (str_nat (nat i)) \<noteq> 45" and "hd (str_nat (nat i)) \<noteq> 43"
    using hd_str_nat [of "nat i"] by simp_all
  then show ?thesis
    by (simp add: parse_int_def str_int_def parse_nat_str_nat str_nat_nonempty)
qed

lemma str_int_no_space: "c \<in> set (str_int i) \<Longrightarrow> \<not> is_space c"
  using str_int_chars [of c i] by (auto simp add: is_space_def)

lemma str_int_no_newline: "10 \<notin> set (str_int i)"
  using str_int_chars [of 10 i] by auto

lemma str_int_no_lt: "60 \<notin> set (str_int i)"
  using str_int_chars [of 60 i] by auto

lemma dropWhile_none: "\<forall>c\<in>set s. \<not> P c \<Longrightarrow> dropWhile P s = s"
  by (cases s) simp_all

lemma strip_pad:
  assumes "\<forall>c\<in>set s. \<not> is_space c"
  shows "strip (replicate j 32 @ s @ replicate k 32) = s"
proof -
  have sp: "is_space 32" by (simp add: is_space_def)
  have "dropWhile is_space (replicate j 32 @ s @ replicate k 32)
      = dropWhile is_space (s @ replicate k 32)"
    by (rule dropWhile_append2) (simp add: sp)
  also have "\<dots> = (if s = [] then [] else s @ replicate k 32)"
  proof (cases s)
    case Nil
    have "dropWhile is_space (replicate k 32 @ []) = dropWhile is_space []"
      by (rule dropWhile_append2) (simp add: sp)
    then show ?thesis using Nil by simp
  next
    case (Cons c cs)
    then have "\<not> is_space c" using assms by simp
    then show ?thesis using Cons by simp
  qed
  finally have a: "dropWhile is_space (replicate j 32 @ s @ replicate k 32)
      = (if s = [] then [] else s @ replicate k 32)" .
  have "dropWhile is_space (replicate k 32 @ rev s) = dropWhile is_space (rev s)"
    by (rule dropWhile_append2) (simp add: sp)
  moreover have "dropWhile is_space (rev s) = rev s"
    by (rule dropWhile_none) (simp add: assms)
  ultimately show ?thesis by (simp add: strip_def a)
qed

lemma length_ljust: "length s \<le> w \<Longrightarrow> length (ljust w s) = w"
  by (simp add: ljust_def)

lemma strip_ljust: "\<forall>c\<in>set s. \<not> is_space c \<Longrightarrow> strip (ljust w s) = s"
  using strip_pad [of s 0 "w - length s"] by (simp add: ljust_def)

lemma strip_str_int: "strip (str_int n) = str_int n"
  using strip_pad [of "str_int n" 0 0] str_int_no_space by simp

lemma parse_field: "parse_int (strip (ljust w (str_int n))) = Some n"
  by (simp add: strip_ljust str_int_no_space parse_int_str_int)

lemma parse_text_row_fits:
  assumes "text_row_fits i s"
  shows "parse_text_row (text_row i s) = Some (numbers s)"
proof -
  let ?A = "ljust 25 (text_username_display i s)"
  let ?T = "ljust 15 (str_int (total_questions s))"
  let ?E = "ljust 10 (str_int (easy_count s))"
  let ?M = "ljust 10 (str_int (medium_count s))"
  let ?H = "ljust 10 (str_int (hard_count s))"
  have l: "length ?A = 25" "length ?T = 15" "length ?E = 10" "length ?M = 10" "length ?H = 10"
    using assms by (simp_all add: text_row_fits_def length_ljust)
  have r: "text_row i s = ?A @ 32 # ?T @ 32 # ?E @ 32 # ?M @ 32 # ?H"
    by (simp add: text_row_def ascii_def)
  have "field 26 15 (text_row i s) = strip ?T"
    unfolding r field_def using l by simp
  moreover have "field 42 10 (text_row i s) = strip ?E"
    unfolding r field_def using l by simp
  moreover have "field 53 10 (text_row i s) = strip ?M"
    unfolding r field_def using l by simp
  moreover have "field 64 10 (text_row i s) = strip ?H"
    unfolding r field_def using l by simp
  ultimately show ?thesis
    by (simp add: parse_text_row_def parse_field numbers_def)
qed

lemma length_text_row_fits: "text_row_fits i s \<Longrightarrow> length (text_row i s) = 74"
  by (simp add: text_row_def text_row_fits_def length_ljust ascii_def)

subsection \<open>Lines of a report\<close>

lemma str_split_nonempty: "str_split sep s \<noteq> []"
  by (induction s) (auto split: list.splits)

lemma str_split_no_sep: "sep \<notin> set a \<Longrightarrow> str_split sep a = [a]"
  by (induction a) auto

lemma str_split_append: "str_split sep (a @ sep # b) = str_split sep a @ str_split sep b"
proof (induction a)
  case Nil show ?case by simp
next
  case (Cons c a)
  obtain l ls where l: "str_split sep a = l # ls"
    using str_split_nonempty [of sep a] by (cases "str_split sep a") auto
  show ?case using Cons.IH by (simp add: l)
qed

lemma str_split_join:
  "ls \<noteq> [] \<Longrightarrow> str_split sep (str_join [sep] ls) = concat (map (str_split sep) ls)"
proof (induction ls)
  case Nil then show ?case by simp
next
  case (Cons p ps)
  show ?case
  proof (cases ps)
    case Nil then show ?thesis by simp
  next
    case (Cons q qs)
    have "str_join [sep] (p # ps) = p @ sep # str_join [sep] ps" using Cons by simp
    then show ?thesis using Cons.IH Cons by (simp add: str_split_append)
  qed
qed

lemma concat_split_lines:
  "\<forall>l\<in>set ls. sep \<notin> set l \<Longrightarrow> concat (map (str_split sep) ls) = ls"
  by (induction ls) (simp_all add: str_split_no_sep)

lemma those_map:
  "\<forall>x\<in>set xs. f x = Some (g x) \<Longrightarrow> those (map f xs) = Some (map g xs)"
  by (induction xs) simp_all

lemma takeWhile_until:
  "\<forall>l\<in>set rows. l \<noteq> x \<Longrightarrow> takeWhile (\<lambda>l. l \<noteq> x) (rows @ x # rest) = rows"
  by (induction rows) simp_all

lemma map_snd_enumerate_comp: "map (\<lambda>p. g (snd p)) (enumerate n xs) = map g xs"
  by (induction xs arbitrary: n) simp_all

lemma set_ljust: "c \<in> set (ljust w s) \<Longrightarrow> c \<in> set s \<or> c = 32"
  by (auto simp add: ljust_def)

lemma text_row_no_newline:
  assumes "10 \<notin> set (username s)"
  shows "10 \<notin> set (text_row i s)"
proof
  assume "10 \<in> set (text_row i s)"
  then have "10 \<in> set (ljust 25 (text_username_display i s))
      \<or> 10 \<in> set (ljust 15 (str_int (total_questions s)))
      \<or> 10 \<in> set (ljust 10 (str_int (easy_count s)))
      \<or> 10 \<in> set (ljust 10 (str_int (medium_count s)))
      \<or> 10 \<in> set (ljust 10 (str_int (hard_count s)))"
    by (auto simp add: text_row_def ascii_def)
  then have "10 \<in> set (text_username_display i s)"
    using set_ljust [of 10] str_int_no_newline by fastforce
  then show False using assms
    by (auto simp add: text_username_display_def ascii_def GOLD_def SILVER_def BRONZE_def
        split: if_splits)
qed

lemma text_title_split:
  "str_split 10 (text_title d)
     = [[], ascii ''LeetCode Statistics (Last '' @ str_int d @ ascii '' Days)'']"
proof -
  have "10 \<notin> set (ascii ''LeetCode Statistics (Last '' @ str_int d @ ascii '' Days)'')"
    using str_int_no_newline [of d] by (simp add: ascii_def)
  then show ?thesis by (simp add: text_title_def str_split_no_sep)
qed

lemma text_fixed_no_newline: "10 \<notin> set RULE" "10 \<notin> set text_column_header"
  by (simp_all add: RULE_def text_column_header_def ljust_def ascii_def)

lemma text_report_lines:
  assumes "\<forall>s\<in>set xs. 10 \<notin> set (username s)"
  shows "\<exists>rest. drop 5 (str_split 10 (TextPresenter_present_stats xs d m))
           = map (\<lambda>(i, s). text_row i s) (enumerate 0 (sorted_builtin total_questions True xs))
             @ RULE # rest"
proof -
  let ?r = "sorted_builtin total_questions True xs"
  let ?rows = "map (\<lambda>(i, s). text_row i s) (enumerate 0 ?r)"
  let ?msg = "case m of None \<Rightarrow> [] | Some c \<Rightarrow> if c = [] then [] else [c]"
  have set_r: "set ?r = set xs"
    using sorted_builtin_mset [of total_questions True xs] by (rule mset_eq_setD)
  have rows: "\<forall>l\<in>set ?rows. 10 \<notin> set l"
  proof
    fix l assume "l \<in> set ?rows"
    then obtain i s where "(i, s) \<in> set (enumerate 0 ?r)" and l: "l = text_row i s" by auto
    then have "s \<in> set ?r" by (auto simp add: in_set_enumerate_eq)
    with assms set_r have "10 \<notin> set (username s)" by blast
    then show "10 \<notin> set l" unfolding l by (rule text_row_no_newline)
  qed
  have ne: "text_output xs d m \<noteq> []" by (simp add: text_output_struct)
  have "str_split 10 (TextPresenter_present_stats xs d m)
      = concat (map (str_split 10) (text_output xs d m))"
    using ne by (simp add: TextPresenter_present_stats_def str_split_join)
  also have "\<dots> = str_split 10 (text_title d) @ [RULE, text_column_header, RULE]
      @ concat (map (str_split 10) ?rows) @ [RULE] @ concat (map (str_split 10) ?msg)"
    by (simp add: text_output_struct text_loop_enumerate str_split_no_sep text_fixed_no_newline)
  also have "concat (map (str_split 10) ?rows) = ?rows"
    using rows by (rule concat_split_lines)
  finally have "drop 5 (str_split 10 (TextPresenter_present_stats xs d m))
      = ?rows @ RULE # concat (map (str_split 10) ?msg)"
    by (simp add: text_title_split)
  then show ?thesis by blast
qed

subsection \<open>The text report\<close>

lemma text_report_round_trip:
  assumes n: "\<forall>s\<in>set xs. 10 \<notin> set (username s)"
    and f: "\<forall>i<length xs. text_row_fits i (sorted_builtin total_questions True xs ! i)"
  shows "parse_text_report (TextPresenter_present_stats xs d m)
           = Some (map numbers (sorted_builtin total_questions True xs))"
proof -
  let ?r = "sorted_builtin total_questions True xs"
  let ?rows = "map (\<lambda>(i, s). text_row i s) (enumerate 0 ?r)"
  obtain rest where d: "drop 5 (str_split 10 (TextPresenter_present_stats xs d m))
      = ?rows @ RULE # rest"
    using text_report_lines [OF n] by blast
  have fit: "\<forall>p\<in>set (enumerate 0 ?r). text_row_fits (fst p) (snd p)"
  proof
    fix p assume "p \<in> set (enumerate 0 ?r)"
    then have "fst p < length ?r" and "?r ! fst p = snd p"
      by (simp_all add: in_set_enumerate_eq)
    with f show "text_row_fits (fst p) (snd p)"
      by (metis sorted_builtin_length)
  qed
  have "\<forall>l\<in>set ?rows. l \<noteq> RULE"
  proof
    fix l assume "l \<in> set ?rows"
    then obtain p where p: "p \<in> set (enumerate 0 ?r)" and l: "l = text_row (fst p) (snd p)"
      by auto
    have "length l = 74" unfolding l using fit p by (simp add: length_text_row_fits)
    then show "l \<noteq> RULE" by (auto simp add: RULE_def)
  qed
  then have "takeWhile (\<lambda>l. l \<noteq> RULE) (?rows @ RULE # rest) = ?rows"
    by (rule takeWhile_until)
  moreover have "those (map parse_text_row ?rows) = Some (map (\<lambda>p. numbers (snd p)) (enumerate 0 ?r))"
  proof -
    have "\<forall>p\<in>set (enumerate 0 ?r).
        (parse_text_row \<circ> (\<lambda>(i, s). text_row i s)) p = Some (numbers (snd p))"
      using fit by (auto simp add: parse_text_row_fits)
    then have "those (map (parse_text_row \<circ> (\<lambda>(i, s). text_row i s)) (enumerate 0 ?r))
        = Some (map (\<lambda>p. numbers (snd p)) (enumerate 0 ?r))"
      by (rule those_map)
    then show ?thesis by (simp only: map_map)
  qed
  moreover have "map (\<lambda>p. numbers (snd p)) (enumerate 0 ?r) = map numbers ?r"
    by (rule map_snd_enumerate_comp)
  ultimately show ?thesis by (simp only: parse_text_report_def d)
qed


lemma sorted_builtin_single: "sorted_builtin k r [x] = [x]"
  by (simp add: sorted_builtin_def)

lemma text_report_single:
  "drop 5 (str_split 10 (TextPresenter_present_stats [x] d None))
     = str_split 10 (text_row 0 x) @ [RULE]"
proof -
  have ne: "text_output [x] d None \<noteq> []" by (simp add: text_output_struct)
  have "str_split 10 (TextPresenter_present_stats [x] d None)
      = concat (map (str_split 10) (text_output [x] d None))"
    using ne by (simp add: TextPresenter_present_stats_def str_split_join)
  then show ?thesis
    by (simp add: text_output_struct sorted_builtin_single text_title_split str_split_no_sep
        text_fixed_no_newline)
qed

text \<open>The row of the record with the long name, at rank 0: the displayed name has 32
  code points, and the slice of the total holds the end of the name and the medal.\<close>

lemma long_name_row:
  "text_row 0 long_name_stats
     = ascii ''abcdefghijklmnopqrstuvwxyzabcd '' @ [GOLD]
       @ ascii '' 10              5          3          2         ''"
  by (simp add: text_row_def long_name_stats_def text_username_display_def ljust_def ascii_def
      str_int_def str_nat.simps replicate_numeral)

lemma parse_long_name_row: "parse_text_row (text_row 0 long_name_stats) = None"
proof -
  have "field 26 15 (text_row 0 long_name_stats) = ascii ''abcd '' @ [GOLD] @ ascii '' 10''"
    by (simp add: long_name_row field_def strip_def ascii_def is_space_def GOLD_def)
  moreover have "parse_int (ascii ''abcd '' @ [GOLD] @ ascii '' 10'') = None"
    by (simp add: parse_int_def parse_nat_def ascii_def)
  ultimately show ?thesis by (simp add: parse_text_row_def)
qed

lemma parse_long_name_report:
  "parse_text_report (TextPresenter_present_stats [long_name_stats] 7 None) = None"
proof -
  have "97 \<in> set (text_row 0 long_name_stats)" by (simp add: long_name_row ascii_def)
  moreover have "97 \<notin> set RULE" by (simp add: RULE_def)
  ultimately have n: "text_row 0 long_name_stats \<noteq> RULE" by auto
  have "10 \<notin> set (text_row 0 long_name_stats)"
    by (simp add: long_name_row ascii_def GOLD_def)
  then have "str_split 10 (text_row 0 long_name_stats) = [text_row 0 long_name_stats]"
    by (rule str_split_no_sep)
  then have "drop 5 (str_split 10 (TextPresenter_present_stats [long_name_stats] 7 None))
      = [text_row 0 long_name_stats, RULE]"
    by (simp add: text_report_single)
  then show ?thesis using n by (simp add: parse_text_report_def parse_long_name_row)
qed

text \<open>The row of the record with a newline in its name is two lines of the report.\<close>

lemma newline_name_row:
  "str_split 10 (text_row 0 newline_name_stats)
     = [ascii ''jo'',
        ascii ''hn '' @ [GOLD]
        @ ascii ''                   10              5          3          2         '']"
  by (simp add: text_row_def newline_name_stats_def text_username_display_def ljust_def
      ascii_def str_int_def str_nat.simps replicate_numeral GOLD_def)

lemma parse_newline_name_report:
  "parse_text_report (TextPresenter_present_stats [newline_name_stats] 7 None) = None"
proof -
  have a: "ascii ''jo'' \<noteq> RULE" by (simp add: RULE_def ascii_def replicate_numeral)
  have "parse_int (field 26 15 (ascii ''jo'')) = None"
    by (simp add: field_def strip_def parse_int_def parse_nat_def ascii_def)
  then have b: "parse_text_row (ascii ''jo'') = None" by (simp add: parse_text_row_def)
  show ?thesis
    by (simp add: parse_text_report_def text_report_single newline_name_row a b)
qed

subsection \<open>Pieces of an HTML report\<close>

lemma split_prefix:
  "sep \<notin> set a \<Longrightarrow>
     str_split sep (a @ b) = (case str_split sep b of [] \<Rightarrow> [a] | l # ls \<Rightarrow> (a @ l) # ls)"
proof (induction a)
  case Nil
  obtain l ls where "str_split sep b = l # ls"
    using str_split_nonempty [of sep b] by (cases "str_split sep b") auto
  then show ?case by simp
next
  case (Cons c a)
  obtain l ls where "str_split sep b = l # ls"
    using str_split_nonempty [of sep b] by (cases "str_split sep b") auto
  with Cons show ?case by simp
qed

lemma split_str_int:
  "str_split 60 (str_int n @ b)
     = (case str_split 60 b of [] \<Rightarrow> [str_int n] | l # ls \<Rightarrow> (str_int n @ l) # ls)"
  by (rule split_prefix) (rule str_int_no_lt)

lemma str_join_prefix:
  "ls \<noteq> [] \<Longrightarrow> str_join [10] (ls @ ms) = str_join [10] ls @ concat (map (\<lambda>l. 10 # l) ms)"
proof (induction ms arbitrary: ls)
  case Nil then show ?case by simp
next
  case (Cons m ms)
  have "str_join [10] ((ls @ [m]) @ ms) = str_join [10] (ls @ [m]) @ concat (map (\<lambda>l. 10 # l) ms)"
    by (rule Cons.IH) simp
  moreover have "str_join [10] (ls @ [m]) = str_join [10] ls @ 10 # m"
    using Cons.prems by (induction "[10::nat]" ls rule: str_join.induct) auto
  ultimately show ?case by simp
qed

lemma split_suffix:
  "60 \<notin> set x \<Longrightarrow>
     str_split 60 (b @ x) = butlast (str_split 60 b) @ [last (str_split 60 b) @ x]"
proof (induction b)
  case Nil
  then show ?case by (simp add: str_split_no_sep)
next
  case (Cons c b)
  obtain l ls where l: "str_split 60 b = l # ls"
    using str_split_nonempty [of 60 b] by (cases "str_split 60 b") auto
  show ?case
  proof (cases "ls = []")
    case True
    then show ?thesis using Cons l by simp
  next
    case False
    then show ?thesis using Cons l by simp
  qed
qed

lemma clash_starts: "clash r q \<Longrightarrow> \<not> starts_with r (q @ x)"
proof
  assume c: "clash r q" and s: "starts_with r (q @ x)"
  let ?n = "min (length r) (length q)"
  have "take ?n r = take ?n (take (length r) (q @ x))"
    using s by (simp add: starts_with_def)
  also have "\<dots> = take ?n (q @ x)" by (simp add: min_def)
  also have "\<dots> = take ?n q" by simp
  finally show False using c by (simp add: clash_def)
qed

lemma plain_piece_append:
  "plain_piece p \<Longrightarrow>
     \<not> starts_with (ascii ''td>'') (p @ x) \<and> \<not> starts_with (ascii ''/table>'') (p @ x)"
  by (simp add: plain_piece_def clash_starts)

lemma plain_piece_self:
  "plain_piece p \<Longrightarrow>
     \<not> starts_with (ascii ''td>'') p \<and> \<not> starts_with (ascii ''/table>'') p"
  using plain_piece_append [of p "[]"] by simp

lemma clean_plain:
  assumes "list_all plain_piece (str_split 60 b)"
  shows "clean b []"
  unfolding clean_def
proof (intro allI impI)
  fix x :: pystr
  assume x: "60 \<notin> set x"
  let ?ps = "str_split 60 b"
  have ne: "?ps \<noteq> []" by (rule str_split_nonempty)
  have e: "str_split 60 (b @ x) = butlast ?ps @ [last ?ps @ x]" using x by (rule split_suffix)
  have bl: "\<forall>p\<in>set (butlast ?ps). plain_piece p"
    using assms by (metis in_set_butlastD list_all_iff)
  have "plain_piece (last ?ps)" using assms ne by (simp add: list_all_iff)
  then have la: "\<not> starts_with (ascii ''td>'') (last ?ps @ x)"
    "\<not> starts_with (ascii ''/table>'') (last ?ps @ x)"
    using plain_piece_append by blast+
  have f: "filter (starts_with (ascii ''td>'')) (butlast ?ps) = []"
    using bl plain_piece_self by (simp add: filter_empty_conv)
  have "list_all (\<lambda>p. \<not> starts_with (ascii ''/table>'') p) (butlast ?ps)"
    using bl plain_piece_self by (simp add: list_all_iff)
  then show "list_all (\<lambda>p. \<not> starts_with (ascii ''/table>'') p) (str_split 60 (b @ x))
        \<and> td_cells (str_split 60 (b @ x)) = []"
    using la f by (simp add: e td_cells_def)
qed

lemma clean_append:
  assumes "clean a cs" and "60 \<notin> set z"
  shows "clean (a @ z) cs"
  unfolding clean_def
proof (intro allI impI)
  fix x :: pystr
  assume "60 \<notin> set x"
  then have "60 \<notin> set (z @ x)" using assms(2) by simp
  with assms(1) show "list_all (\<lambda>p. \<not> starts_with (ascii ''/table>'') p)
          (str_split 60 ((a @ z) @ x)) \<and> td_cells (str_split 60 ((a @ z) @ x)) = cs"
    unfolding clean_def by (metis append_assoc)
qed

lemma td_cells_append: "td_cells (ps @ qs) = td_cells ps @ td_cells qs"
  by (simp add: td_cells_def)

lemma clean_compose:
  assumes a: "clean a cs" and b: "clean b ds" and y: "60 \<notin> set y"
  shows "clean (a @ y @ 60 # b) (cs @ ds)"
  unfolding clean_def
proof (intro allI impI)
  fix x :: pystr
  assume x: "60 \<notin> set x"
  have e: "str_split 60 (a @ y @ 60 # b @ x) = str_split 60 (a @ y) @ str_split 60 (b @ x)"
    using str_split_append [of 60 "a @ y" "b @ x"] by simp
  from a y have "list_all (\<lambda>p. \<not> starts_with (ascii ''/table>'') p) (str_split 60 (a @ y))"
    and "td_cells (str_split 60 (a @ y)) = cs"
    by (simp_all add: clean_def)
  moreover from b x have "list_all (\<lambda>p. \<not> starts_with (ascii ''/table>'') p) (str_split 60 (b @ x))"
    and "td_cells (str_split 60 (b @ x)) = ds"
    by (simp_all add: clean_def)
  ultimately show "list_all (\<lambda>p. \<not> starts_with (ascii ''/table>'') p)
          (str_split 60 ((a @ y @ 60 # b) @ x))
        \<and> td_cells (str_split 60 ((a @ y @ 60 # b) @ x)) = cs @ ds"
    by (simp add: e td_cells_append)
qed

lemma clean_tag:
  assumes "clean b cs"
  shows "clean (60 # b) cs"
  unfolding clean_def
proof (intro allI impI)
  fix x :: pystr
  assume "60 \<notin> set x"
  with assms have "list_all (\<lambda>p. \<not> starts_with (ascii ''/table>'') p) (str_split 60 (b @ x))"
    and "td_cells (str_split 60 (b @ x)) = cs"
    by (simp_all add: clean_def)
  then show "list_all (\<lambda>p. \<not> starts_with (ascii ''/table>'') p) (str_split 60 ((60 # b) @ x))
        \<and> td_cells (str_split 60 ((60 # b) @ x)) = cs"
    by (simp add: td_cells_def starts_with_def ascii_def)
qed

lemma clean_lines:
  assumes "\<forall>l\<in>set ls. 60 \<notin> set l \<or> list_all plain_piece (str_split 60 (after_lt l))"
    and "clean a cs"
  shows "clean (a @ concat (map (\<lambda>l. 10 # l) ls)) cs"
  using assms
proof (induction ls arbitrary: a)
  case Nil
  then show ?case by simp
next
  case (Cons l ls)
  have "clean (a @ 10 # l) cs"
  proof (cases "60 \<in> set l")
    case False
    then show ?thesis using clean_append [OF Cons.prems(2), of "10 # l"] by simp
  next
    case True
    then have p: "list_all plain_piece (str_split 60 (after_lt l))" using Cons.prems(1) by simp
    have d: "dropWhile (\<lambda>c. c \<noteq> 60) l \<noteq> []" using True by (simp add: dropWhile_eq_Nil_conv)
    then have h: "hd (dropWhile (\<lambda>c. c \<noteq> 60) l) = 60"
      using hd_dropWhile [of "\<lambda>c. c \<noteq> 60" l] by simp
    have "l = takeWhile (\<lambda>c. c \<noteq> 60) l @ dropWhile (\<lambda>c. c \<noteq> 60) l" by simp
    also have "dropWhile (\<lambda>c. c \<noteq> 60) l = 60 # after_lt l"
      using d h by (cases "dropWhile (\<lambda>c. c \<noteq> 60) l") (simp_all add: after_lt_def)
    finally have l: "l = takeWhile (\<lambda>c. c \<noteq> 60) l @ 60 # after_lt l" .
    have y: "60 \<notin> set (10 # takeWhile (\<lambda>c. c \<noteq> 60) l)"
      by (auto dest: set_takeWhileD)
    have "clean (a @ (10 # takeWhile (\<lambda>c. c \<noteq> 60) l) @ 60 # after_lt l) (cs @ [])"
      using Cons.prems(2) clean_plain [OF p] y by (rule clean_compose)
    then show ?thesis using l by (metis append_Cons append_Nil2)
  qed
  from Cons.IH [OF _ this] Cons.prems(1) show ?case by simp
qed

lemma head_lines_plain:
  "\<forall>l\<in>set (tl (html_head @ html_stats_header d)).
      60 \<notin> set l \<or> list_all plain_piece (str_split 60 (after_lt l))"
  by (simp add: html_head_def html_stats_header_def ascii_def after_lt_def split_str_int
      plain_piece_def clash_def)

lemma clean_head: "clean (str_join [10] (html_head @ html_stats_header d)) []"
proof -
  have "list_all plain_piece (str_split 60 (ascii ''!DOCTYPE html>''))"
    by (simp add: ascii_def plain_piece_def clash_def)
  then have "clean (60 # ascii ''!DOCTYPE html>'') []" by (intro clean_tag clean_plain)
  from clean_lines [OF head_lines_plain this, of d]
  have "clean (ascii ''<!DOCTYPE html>'' @ concat (map (\<lambda>l. 10 # l)
      (tl (html_head @ html_stats_header d)))) []"
    by (simp add: ascii_def)
  moreover have "str_join [10] (html_head @ html_stats_header d)
      = ascii ''<!DOCTYPE html>'' @ concat (map (\<lambda>l. 10 # l) (tl (html_head @ html_stats_header d)))"
    using str_join_prefix [of "[ascii ''<!DOCTYPE html>'']" "tl (html_head @ html_stats_header d)"]
    by (simp add: html_head_def)
  ultimately show ?thesis by simp
qed

subsection \<open>Rows of an HTML report\<close>

lemma row_string_tail: "row_string i s = 10 # ascii ''    '' @ 60 # row_tail i s"
  by (simp add: row_tail_def row_string_def html_row_def ascii_def)

lemma row_tail_parts:
  "row_tail i s
     = (ascii ''tr'' @ html_row_class i @ ascii ''>'') @ (10 # ascii ''        '') @ 60 #
       name_cell i (username s) @ (10 # ascii ''        '') @ 60 #
       (ascii ''td>'' @ str_int (total_questions s) @ ascii ''</td>'')
       @ (10 # ascii ''        '') @ 60 #
       (ascii ''td>'' @ str_int (easy_count s) @ ascii ''</td>'')
       @ (10 # ascii ''        '') @ 60 #
       (ascii ''td>'' @ str_int (medium_count s) @ ascii ''</td>'')
       @ (10 # ascii ''        '') @ 60 #
       (ascii ''td>'' @ str_int (hard_count s) @ ascii ''</td>'')
       @ (10 # ascii ''    '') @ 60 # ascii ''/tr>''"
  by (simp add: row_tail_def row_string_def html_row_def name_cell_def ascii_def)

lemma clean_tr: "clean (ascii ''tr'' @ html_row_class i @ ascii ''>'') []"
  by (rule clean_plain)
     (simp add: html_row_class_def ascii_def plain_piece_def clash_def)

lemma clean_tr_end: "clean (ascii ''/tr>'') []"
  by (rule clean_plain) (simp add: ascii_def plain_piece_def clash_def)

lemma clean_number: "clean (ascii ''td>'' @ str_int n @ ascii ''</td>'') [str_int n]"
  unfolding clean_def
proof (intro allI impI)
  fix x :: pystr
  assume x: "60 \<notin> set x"
  note sx = str_split_no_sep [OF x]
  show "list_all (\<lambda>p. \<not> starts_with (ascii ''/table>'') p)
          (str_split 60 ((ascii ''td>'' @ str_int n @ ascii ''</td>'') @ x))
        \<and> td_cells (str_split 60 ((ascii ''td>'' @ str_int n @ ascii ''</td>'') @ x))
          = [str_int n]"
    by (simp add: ascii_def split_str_int sx td_cells_def starts_with_def)
qed

lemma clean_name:
  assumes u: "60 \<notin> set u"
  shows "clean (name_cell i u) [[]]"
  unfolding clean_def
proof (intro allI impI)
  fix x :: pystr
  assume x: "60 \<notin> set x"
  note sx = str_split_no_sep [OF x]
  note su = split_prefix [OF u]
  show "list_all (\<lambda>p. \<not> starts_with (ascii ''/table>'') p) (str_split 60 (name_cell i u @ x))
        \<and> td_cells (str_split 60 (name_cell i u @ x)) = [[]]"
    by (simp add: name_cell_def html_medal_def ascii_def su sx td_cells_def starts_with_def
        GOLD_def SILVER_def BRONZE_def)
qed

lemma clean_row_tail:
  assumes "clean (name_cell i (username s)) ns"
  shows "clean (row_tail i s) (ns @ number_cells s)"
proof -
  have y8: "60 \<notin> set (10 # ascii ''        '')" and y4: "60 \<notin> set (10 # ascii ''    '')"
    by (simp_all add: ascii_def)
  have "clean (row_tail i s)
      ([] @ ns @ [str_int (total_questions s)] @ [str_int (easy_count s)]
       @ [str_int (medium_count s)] @ [str_int (hard_count s)] @ [])"
    unfolding row_tail_parts
    by (intro clean_compose clean_tr assms clean_number clean_tr_end y8 y4)
  then show ?thesis by (simp add: number_cells_def)
qed

lemma clean_row:
  "60 \<notin> set (username s) \<Longrightarrow> clean (row_tail i s) (row_cells s)"
  using clean_row_tail [OF clean_name, of s i] by (simp add: row_cells_def number_cells_def)

lemma html_cells_compose:
  assumes a: "clean a cs" and y: "60 \<notin> set y"
  shows "html_cells (a @ y @ 60 # b) = cs @ html_cells b"
proof -
  have e: "str_split 60 (a @ y @ 60 # b) = str_split 60 (a @ y) @ str_split 60 b"
    using str_split_append [of 60 "a @ y" b] by simp
  from a y have n: "list_all (\<lambda>p. \<not> starts_with (ascii ''/table>'') p) (str_split 60 (a @ y))"
    and c: "td_cells (str_split 60 (a @ y)) = cs"
    by (simp_all add: clean_def)
  have "takeWhile (\<lambda>p. \<not> starts_with (ascii ''/table>'') p) (str_split 60 (a @ y) @ str_split 60 b)
      = str_split 60 (a @ y) @ takeWhile (\<lambda>p. \<not> starts_with (ascii ''/table>'') p) (str_split 60 b)"
    by (rule takeWhile_append2) (use n in \<open>simp add: list_all_iff\<close>)
  then show ?thesis by (simp add: html_cells_def e td_cells_append c)
qed

lemma html_cells_table_end: "html_cells (ascii ''/table>'' @ z) = []"
proof -
  obtain l ls where l: "str_split 60 z = l # ls"
    using str_split_nonempty [of 60 z] by (cases "str_split 60 z") auto
  have "60 \<notin> set (ascii ''/table>'')" by (simp add: ascii_def)
  then have "str_split 60 (ascii ''/table>'' @ z) = (ascii ''/table>'' @ l) # ls"
    by (simp add: split_prefix l)
  then show ?thesis by (simp add: html_cells_def starts_with_def td_cells_def)
qed

lemma html_cells_rows:
  assumes "clean a cs" and "\<forall>p\<in>set en. 60 \<notin> set (username (snd p))"
  shows "html_cells (a @ concat (map (\<lambda>(i, s). row_string i s) en)
            @ 10 # 60 # ascii ''/table>'' @ z)
           = cs @ concat (map (\<lambda>(i, s). row_cells s) en)"
  using assms
proof (induction en arbitrary: a cs)
  case Nil
  have "html_cells (a @ [10] @ 60 # ascii ''/table>'' @ z) = cs @ html_cells (ascii ''/table>'' @ z)"
    by (rule html_cells_compose [OF Nil.prems(1)]) simp
  then show ?case by (simp add: html_cells_table_end)
next
  case (Cons p en)
  obtain i s where p: "p = (i, s)" by (cases p)
  have u: "60 \<notin> set (username s)" using Cons.prems(2) p by simp
  let ?rest = "concat (map (\<lambda>(i, s). row_string i s) en) @ 10 # 60 # ascii ''/table>'' @ z"
  have y: "60 \<notin> set (10 # ascii ''    '')" by (simp add: ascii_def)
  have "html_cells (a @ (10 # ascii ''    '') @ 60 # (row_tail i s @ ?rest))
      = cs @ html_cells (row_tail i s @ ?rest)"
    using Cons.prems(1) y by (rule html_cells_compose)
  moreover have "html_cells (row_tail i s @ ?rest) = row_cells s @ concat (map (\<lambda>(i, s). row_cells s) en)"
    using Cons.IH [OF clean_row [OF u]] Cons.prems(2) by simp
  ultimately show ?case by (simp add: p row_string_tail)
qed

lemma concat_row_strings:
  "concat (map (\<lambda>l. 10 # l) (concat (map (\<lambda>(i, s). html_row i s) en)))
     = concat (map (\<lambda>(i, s). row_string i s) en)"
  by (induction en) (auto simp add: row_string_def)

lemma html_report_string:
  "\<exists>z. HtmlPresenter_present_stats xs d m
     = str_join [10] (html_head @ html_stats_header d)
       @ concat (map (\<lambda>(i, s). row_string i s) (enumerate 0 (sorted_builtin total_questions True xs)))
       @ 10 # 60 # ascii ''/table>'' @ z"
proof -
  let ?en = "enumerate 0 (sorted_builtin total_questions True xs)"
  let ?tail = "(case m of None \<Rightarrow> [] | Some c \<Rightarrow> if c = [] then [] else [html_message c])
     @ [ascii ''</body>'', ascii ''</html>'']"
  have ne: "html_head @ html_stats_header d \<noteq> []" by (simp add: html_head_def)
  have "HtmlPresenter_present_stats xs d m
      = str_join [10] ((html_head @ html_stats_header d)
          @ (concat (map (\<lambda>(i, s). html_row i s) ?en) @ [ascii ''</table>''] @ ?tail))"
    by (simp add: HtmlPresenter_present_stats_def html_output_struct html_loop_enumerate)
  also have "\<dots> = str_join [10] (html_head @ html_stats_header d)
      @ concat (map (\<lambda>l. 10 # l) (concat (map (\<lambda>(i, s). html_row i s) ?en)
          @ [ascii ''</table>''] @ ?tail))"
    using ne by (rule str_join_prefix)
  also have "\<dots> = str_join [10] (html_head @ html_stats_header d)
       @ concat (map (\<lambda>(i, s). row_string i s) ?en)
       @ 10 # 60 # ascii ''/table>'' @ concat (map (\<lambda>l. 10 # l) ?tail)"
    by (simp add: concat_row_strings ascii_def)
  finally have "HtmlPresenter_present_stats xs d m
      = str_join [10] (html_head @ html_stats_header d)
       @ concat (map (\<lambda>(i, s). row_string i s) ?en)
       @ 10 # 60 # ascii ''/table>'' @ concat (map (\<lambda>l. 10 # l) ?tail)" .
  then show ?thesis by blast
qed

lemma parse_html_cells_rows:
  "parse_html_cells (concat (map (\<lambda>(i, s). row_cells s) en)) = Some (map (\<lambda>p. numbers (snd p)) en)"
  by (induction en)
     (auto simp add: row_cells_def strip_str_int parse_int_str_int numbers_def)

lemma html_report_round_trip:
  assumes "\<forall>s\<in>set xs. 60 \<notin> set (username s)"
  shows "parse_html_report (HtmlPresenter_present_stats xs d m)
           = Some (map numbers (sorted_builtin total_questions True xs))"
proof -
  let ?r = "sorted_builtin total_questions True xs"
  obtain z where z: "HtmlPresenter_present_stats xs d m
     = str_join [10] (html_head @ html_stats_header d)
       @ concat (map (\<lambda>(i, s). row_string i s) (enumerate 0 ?r))
       @ 10 # 60 # ascii ''/table>'' @ z"
    using html_report_string by blast
  have "set ?r = set xs"
    using sorted_builtin_mset [of total_questions True xs] by (rule mset_eq_setD)
  then have u: "\<forall>p\<in>set (enumerate 0 ?r). 60 \<notin> set (username (snd p))"
    using assms by (auto simp add: in_set_enumerate_eq)
  have "html_cells (HtmlPresenter_present_stats xs d m)
      = [] @ concat (map (\<lambda>(i, s). row_cells s) (enumerate 0 ?r))"
    unfolding z using clean_head u by (rule html_cells_rows)
  then show ?thesis
    by (simp add: parse_html_report_def parse_html_cells_rows map_snd_enumerate_comp)
qed

text \<open>The row of the record with the total of 16 digits: the slice of the total holds its
  first 15 digits, and every later column begins one place to the right.\<close>

lemma wide_total_row:
  "text_row 0 wide_total_stats
     = ascii ''zoe '' @ [GOLD]
       @ ascii ''                     1234567890123456 5          3          2         ''"
  by (simp add: text_row_def wide_total_stats_def text_username_display_def ljust_def ascii_def
      str_int_def str_nat.simps replicate_numeral)

lemma parse_wide_total_row:
  "parse_text_row (text_row 0 wide_total_stats) = Some (123456789012345, 5, 3, 2)"
proof -
  have "field 26 15 (text_row 0 wide_total_stats) = ascii ''123456789012345''"
    and "field 42 10 (text_row 0 wide_total_stats) = ascii ''5''"
    and "field 53 10 (text_row 0 wide_total_stats) = ascii ''3''"
    and "field 64 10 (text_row 0 wide_total_stats) = ascii ''2''"
    by (simp_all add: wide_total_row field_def strip_def ascii_def is_space_def GOLD_def)
  moreover have "parse_int (ascii ''123456789012345'') = Some 123456789012345"
    and "parse_int (ascii ''5'') = Some 5"
    and "parse_int (ascii ''3'') = Some 3"
    and "parse_int (ascii ''2'') = Some 2"
    by (simp_all add: parse_int_def parse_nat_def ascii_def)
  ultimately show ?thesis by (simp add: parse_text_row_def)
qed

lemma parse_wide_total_report:
  "parse_text_report (TextPresenter_present_stats [wide_total_stats] 7 None)
     = Some [(123456789012345, 5, 3, 2)]"
proof -
  have "122 \<in> set (text_row 0 wide_total_stats)" by (simp add: wide_total_row ascii_def)
  moreover have "122 \<notin> set RULE" by (simp add: RULE_def)
  ultimately have n: "text_row 0 wide_total_stats \<noteq> RULE" by auto
  have "10 \<notin> set (text_row 0 wide_total_stats)"
    by (simp add: wide_total_row ascii_def GOLD_def)
  then have "str_split 10 (text_row 0 wide_total_stats) = [text_row 0 wide_total_stats]"
    by (rule str_split_no_sep)
  then have "drop 5 (str_split 10 (TextPresenter_present_stats [wide_total_stats] 7 None))
      = [text_row 0 wide_total_stats, RULE]"
    by (simp add: text_report_single)
  then show ?thesis using n by (simp add: parse_text_report_def parse_wide_total_row)
qed

text \<open>The cell of the name with markup in it: the name is written as it is, so the
  \<open><td>\<close> in it opens a cell, once in the address of the link and once in its text.\<close>

lemma clean_markup_name:
  \<open>clean (name_cell 0 (ascii ''eve<td>99''))
     [[], ascii ''99/" target="_blank">eve'', ascii ''99'']\<close>
  unfolding clean_def
proof (intro allI impI)
  fix x :: pystr
  assume x: "60 \<notin> set x"
  note sx = str_split_no_sep [OF x]
  show \<open>list_all (\<lambda>p. \<not> starts_with (ascii ''/table>'') p)
          (str_split 60 (name_cell 0 (ascii ''eve<td>99'') @ x))
        \<and> td_cells (str_split 60 (name_cell 0 (ascii ''eve<td>99'') @ x))
          = [[], ascii ''99/" target="_blank">eve'', ascii ''99'']\<close>
    by (simp add: name_cell_def html_medal_def ascii_def sx td_cells_def starts_with_def
        GOLD_def)
qed

lemma markup_name_cells:
  \<open>html_cells (HtmlPresenter_present_stats [markup_name_stats] 7 None)
     = [[], ascii ''99/" target="_blank">eve'', ascii ''99'',
        ascii ''10'', ascii ''5'', ascii ''3'', ascii ''2'']\<close>
proof -
  let ?name = \<open>[[], ascii ''99/" target="_blank">eve'', ascii ''99'']\<close>
  obtain z where z: "HtmlPresenter_present_stats [markup_name_stats] 7 None
     = str_join [10] (html_head @ html_stats_header 7)
       @ concat (map (\<lambda>(i, s). row_string i s)
           (enumerate 0 (sorted_builtin total_questions True [markup_name_stats])))
       @ 10 # 60 # ascii ''/table>'' @ z"
    using html_report_string by blast
  have u: "username markup_name_stats = ascii ''eve<td>99''"
    by (simp add: markup_name_stats_def)
  have r: "clean (row_tail 0 markup_name_stats) (?name @ number_cells markup_name_stats)"
    by (rule clean_row_tail) (simp only: u clean_markup_name)
  have y: "60 \<notin> set (10 # ascii ''    '')" by (simp add: ascii_def)
  have "HtmlPresenter_present_stats [markup_name_stats] 7 None
      = str_join [10] (html_head @ html_stats_header 7) @ (10 # ascii ''    '') @ 60 #
        (row_tail 0 markup_name_stats @ [10] @ 60 # (ascii ''/table>'' @ z))"
    by (simp add: z sorted_builtin_single row_string_tail)
  moreover have "html_cells (str_join [10] (html_head @ html_stats_header 7)
        @ (10 # ascii ''    '') @ 60 #
        (row_tail 0 markup_name_stats @ [10] @ 60 # (ascii ''/table>'' @ z)))
      = [] @ html_cells (row_tail 0 markup_name_stats @ [10] @ 60 # (ascii ''/table>'' @ z))"
    using clean_head y by (rule html_cells_compose)
  moreover have "html_cells (row_tail 0 markup_name_stats @ [10] @ 60 # (ascii ''/table>'' @ z))
      = (?name @ number_cells markup_name_stats) @ html_cells (ascii ''/table>'' @ z)"
    using r by (rule html_cells_compose) simp
  moreover have "number_cells markup_name_stats
      = [ascii ''10'', ascii ''5'', ascii ''3'', ascii ''2'']"
    by (simp add: number_cells_def markup_name_stats_def str_int_def str_nat.simps ascii_def)
  ultimately show ?thesis by (simp add: html_cells_table_end)
qed

lemma parse_markup_name_report:
  "parse_html_report (HtmlPresenter_present_stats [markup_name_stats] 7 None) = None"
proof -
  have \<open>parse_int (strip (ascii ''99/" target="_blank">eve'')) = None\<close>
    by (simp add: strip_def is_space_def parse_int_def parse_nat_def ascii_def)
  then show ?thesis by (simp add: parse_html_report_def markup_name_cells)
qed

subsection \<open>The numbers read back from a report\<close>

text \<open>
  Claim C7 as stated fails, in four ways. The name of 30 letters pushes the total out of
  its columns, so that the slice of the total is not a numeral. The total of 16 digits is
  wider than its column, and its slice is the numeral of another number. The newline in a
  name cuts the row of the text report in two lines, the first of which has no numbers.
  The name with \<open><td>\<close> in it is written into the HTML document as it is and opens cells
  of its own, so that the cells of the row are no longer the name and the four numbers.
\<close>

theorem numbers_round_trip_counterexample:
  "parse_text_report (TextPresenter_present_stats [long_name_stats] 7 None) = None
   \<and> numbers wide_total_stats = (1234567890123456, 5, 3, 2)
   \<and> parse_text_report (TextPresenter_present_stats [wide_total_stats] 7 None)
       = Some [(123456789012345, 5, 3, 2)]
   \<and> parse_text_report (TextPresenter_present_stats [newline_name_stats] 7 None) = None
   \<and> parse_html_report (HtmlPresenter_present_stats [markup_name_stats] 7 None) = None"
proof -
  have "numbers wide_total_stats = (1234567890123456, 5, 3, 2)"
    by (simp add: numbers_def wide_total_stats_def)
  then show ?thesis
    by (simp only: parse_long_name_report parse_wide_total_report parse_newline_name_report
        parse_markup_name_report simp_thms)
qed

text \<open>
  Claim C7, amended. When no user name contains the character \<open><\<close>, reading the cells of
  the HTML report gives, for every record in ranked order, the four numbers exactly as
  given. When no user name contains a newline and every row fits its columns (the
  displayed name, medal included, has at most 25 code points and the numerals have at most
  15, 10, 10 and 10), reading the fixed-width columns of the text report gives them too.
\<close>

theorem numbers_round_trip:
  "((\<forall>s\<in>set xs. 60 \<notin> set (username s))
      \<longrightarrow> parse_html_report (HtmlPresenter_present_stats xs d m)
            = Some (map numbers (sorted_builtin total_questions True xs)))
   \<and> ((\<forall>s\<in>set xs. 10 \<notin> set (username s))
       \<and> (\<forall>i<length xs. text_row_fits i (sorted_builtin total_questions True xs ! i))
      \<longrightarrow> parse_text_report (TextPresenter_present_stats xs d m)
            = Some (map numbers (sorted_builtin total_questions True xs)))"
  using html_report_round_trip [of xs d m] text_report_round_trip [of xs d m] by blast

theorem numbers_round_trip_witness:
  "parse_html_report (HtmlPresenter_present_stats example_stats 7 None)
     = Some [(10, 5, 3, 2), (10, 2, 2, 6), (5, 5, 0, 0)]
   \<and> parse_text_report (TextPresenter_present_stats example_stats 7 None)
     = Some [(10, 5, 3, 2), (10, 2, 2, 6), (5, 5, 0, 0)]"
proof -
  have l: "\<forall>s\<in>set example_stats. 60 \<notin> set (username s)"
    and n: "\<forall>s\<in>set example_stats. 10 \<notin> set (username s)"
    by (simp_all add: example_stats_def ascii_def)
  have f0: "text_row_fits 0 (example_stats ! 0)"
    and f1: "text_row_fits 1 (example_stats ! 1)"
    and f2: "text_row_fits 2 (example_stats ! 2)"
    by (simp_all add: text_row_fits_def example_stats_def text_username_display_def ascii_def
        str_int_def str_nat.simps)
  have f: "\<forall>i<length example_stats.
      text_row_fits i (sorted_builtin total_questions True example_stats ! i)"
  proof (intro allI impI)
    fix i assume "i < length example_stats"
    then have "i = 0 \<or> i = 1 \<or> i = 2" by (auto simp add: example_stats_def)
    then show "text_row_fits i (sorted_builtin total_questions True example_stats ! i)"
      using f0 f1 f2 by (auto simp add: example_sorted)
  qed
  have v: "map numbers example_stats = [(10, 5, 3, 2), (10, 2, 2, 6), (5, 5, 0, 0)]"
    by (simp add: example_stats_def numbers_def)
  show ?thesis
    using numbers_round_trip [of example_stats 7 None] l n f by (simp add: example_sorted v)
qed

end
